theory Spec2Isabelle
  imports Main
begin

section \<open>The nodeSync module of the wallet: data\<close>

text \<open>
  The module \<^verbatim>\<open>src/modules/nodeSync.js\<close> exports one \<^verbatim>\<open>NodeSync\<close> object. Its
  methods run on a single-threaded event loop: a call runs to completion, and what it
  leaves behind for later turns is a timer (\<^verbatim>\<open>_.delay\<close>, \<^verbatim>\<open>Q.delay\<close>), an RPC call
  in flight (\<^verbatim>\<open>ethereumNode.send\<close>) or a promise reaction (\<^verbatim>\<open>.then\<close>, \<^verbatim>\<open>.catch\<close>,
  \<^verbatim>\<open>.finally\<close>), which the promise library runs in a later turn. The model keeps the
  fields of the object together with these three kinds of pending work in one record and
  gives one function per method and per callback of the source.

  Collaborators that are not part of the module appear through what the module does
  with them:
  \<^item> \<^verbatim>\<open>this.emit\<close> appends the event to a trace. The listeners are outside the module
    and are taken to return normally. The object is an \<^verbatim>\<open>EventEmitter\<close>, which throws
    the error instead of emitting it when \<^verbatim>\<open>error\<close> is emitted and nobody listens:
    the number of \<^verbatim>\<open>error\<close> listeners is part of the state, the constructor registers
    none, and the environment registers and removes them;
  \<^item> the logger appends to a second trace, one constructor per call site;
  \<^item> \<^verbatim>\<open>ethereumNode.isIpcConnected\<close> is a flag the environment sets, and the replies of
    the node are inputs;
  \<^item> the listeners on the ipc channel \<^verbatim>\<open>backendAction_skipSync\<close> are all the same
    closure over \<^verbatim>\<open>this\<close>, so their number stands for them.
\<close>

text \<open>Errors that the code throws or receives. \<open>NotAFunction\<close> is the TypeError of
  calling a field that holds \<^verbatim>\<open>false\<close>.\<close>

datatype error =
    NotConnected
  | Unexpected "int option"
  | Transport nat
  | NotAFunction

text \<open>The \<^verbatim>\<open>result\<close> of an \<^verbatim>\<open>eth_syncing\<close> reply: a falsy value, a truthy object
  whose \<^verbatim>\<open>error\<close> field is set (with its \<^verbatim>\<open>code\<close>, when it has one), or a truthy
  object without error, whose content is opaque progress data.\<close>

datatype payload =
    Absent
  | ErrorPayload "int option"
  | SyncStatus nat

text \<open>The \<^verbatim>\<open>result\<close> of an \<^verbatim>\<open>eth_getBlockByNumber\<close> reply: falsy, or a block with its
  timestamp in seconds.\<close>

datatype block = NoBlock | Block int

text \<open>A reply of the node: a response object, or a failure of the transport.\<close>

datatype 'a reply = Response 'a | Failed nat

datatype event =
    Starting
  | Finished
  | ErrorEvent error
  | Stopped
  | NodeSyncing payload

datatype log_line =
    WarnAlreadyInProgress
  | InfoStartingLoop
  | InfoSkipped
  | ErrorSync error
  | InfoLoopEnded
  | DebugNotInProgress
  | InfoStoppingLoop
  | DebugNoLongerInProgress
  | TraceCheckStatus
  | TraceSyncStatus payload
  | WarnNotImplemented
  | DebugCheckBlock
  | DebugLastBlock int
  | TraceKeepSyncing
  | InfoNoMoreSync
  | ErrorNodeCrashed error
  | InfoNodeStopping
  | InfoNodeConnected

text \<open>Modelled from the spec: the table \<^verbatim>\<open>ethereumNode.STATES\<close> is not part of the
  module; the spec names the lifecycle states Starting, Connected, Stopping, Stopped and
  leaves the rest open.\<close>

datatype node_state =
    NodeStarting
  | NodeConnected
  | NodeStopping
  | NodeStopped
  | NodeOther nat

datatype pstate = Pending | Fulfilled | Rejected error

text \<open>One call of \<^verbatim>\<open>start\<close> that found no session builds a chain of promises:
  \<open>inner\<close> is the promise of \<^verbatim>\<open>Q.try\<close> (settled by \<^verbatim>\<open>resolve\<close>, \<^verbatim>\<open>reject\<close> or the
  throw), \<open>outer\<close> the promise after \<^verbatim>\<open>.then\<close>, \<^verbatim>\<open>.catch\<close> and \<^verbatim>\<open>.finally\<close>, which
  is stored in \<^verbatim>\<open>_syncPromise\<close> and returned.\<close>

record session =
  inner :: pstate
  outer :: pstate

text \<open>The promise returned by one call of \<^verbatim>\<open>stop\<close>, with the number of
  \<^verbatim>\<open>.then(() => this.start())\<close> reactions waiting on it.\<close>

record stop_promise =
  settled :: pstate
  then_start :: nat

datatype timer = SyncTick | StopDelay nat

datatype rpc = EthSyncing | GetBlock payload

datatype job = SessionSettled nat | StopDelayed nat | ThenStart nat

record state =
  syncPromise :: "nat option"
  syncInProgress :: bool
  onSyncDone :: "nat option"
  onSyncError :: "nat option"
  skipListeners :: nat
  errorListeners :: nat
  connected :: bool
  clock :: nat
  events :: "event list"
  logs :: "log_line list"
  sessions :: "session list"
  stops :: "stop_promise list"
  timers :: "(nat \<times> timer) list"
  rpcs :: "rpc list"
  jobs :: "job list"
  unhandled :: "error list"

definition SYNC_CHECK_INTERVAL_MS :: nat where
  "SYNC_CHECK_INTERVAL_MS = 2000"

text \<open>The object after its constructor, at wall-clock time \<open>t\<close> (milliseconds), with
  the transport connected or not.\<close>

definition init :: "nat \<Rightarrow> bool \<Rightarrow> state" where
  "init t c = \<lparr> syncPromise = None, syncInProgress = False, onSyncDone = None,
      onSyncError = None, skipListeners = 0, errorListeners = 0, connected = c, clock = t,
      events = [], logs = [], sessions = [], stops = [], timers = [], rpcs = [], jobs = [],
      unhandled = [] \<rparr>"

section \<open>The methods\<close>

definition emit :: "event \<Rightarrow> state \<Rightarrow> state" where
  "emit e s = s\<lparr>events := events s @ [e]\<rparr>"

text \<open>\<^verbatim>\<open>this.emit('error', err)\<close>: with no listener registered the emitter throws
  and nothing is emitted. It throws \<open>err\<close> itself when that is an \<^verbatim>\<open>Error\<close> object and
  an error that wraps it otherwise; the model does not tell the two apart.\<close>

definition emit_error :: "error \<Rightarrow> state \<Rightarrow> state \<times> error option" where
  "emit_error err s =
     (if errorListeners s = 0 then (s, Some err) else (emit (ErrorEvent err) s, None))"

definition log :: "log_line \<Rightarrow> state \<Rightarrow> state" where
  "log l s = s\<lparr>logs := logs s @ [l]\<rparr>"

text \<open>\<^verbatim>\<open>_clearState\<close>: removes the skip listeners and sets the four fields to
  \<^verbatim>\<open>false\<close>.\<close>

definition clearState :: "state \<Rightarrow> state" where
  "clearState s = s\<lparr>skipListeners := 0, syncInProgress := False, syncPromise := None,
     onSyncDone := None, onSyncError := None\<rparr>"

text \<open>Settling the inner promise of a session: the first call of \<^verbatim>\<open>resolve\<close> or
  \<^verbatim>\<open>reject\<close> wins and queues the reactions of the chain, a later call does nothing.\<close>

definition settle :: "nat \<Rightarrow> pstate \<Rightarrow> state \<Rightarrow> state" where
  "settle sid v s =
     (if sid < length (sessions s) \<and> inner (sessions s ! sid) = Pending
      then s\<lparr>sessions := (sessions s)[sid := (sessions s ! sid)\<lparr>inner := v\<rparr>],
             jobs := jobs s @ [SessionSettled sid]\<rparr>
      else s)"

text \<open>\<^verbatim>\<open>this._onSyncDone()\<close> and \<^verbatim>\<open>this._onSyncError(err)\<close>: the field is read at the
  time of the call; calling \<^verbatim>\<open>false\<close> throws.\<close>

definition call_onSyncDone :: "state \<Rightarrow> state \<times> error option" where
  "call_onSyncDone s =
     (case onSyncDone s of
        None \<Rightarrow> (s, Some NotAFunction)
      | Some sid \<Rightarrow> (settle sid Fulfilled s, None))"

definition call_onSyncError :: "error \<Rightarrow> state \<Rightarrow> state \<times> error option" where
  "call_onSyncError e s =
     (case onSyncError s of
        None \<Rightarrow> (s, Some NotAFunction)
      | Some sid \<Rightarrow> (settle sid (Rejected e) s, None))"

text \<open>\<^verbatim>\<open>_sync\<close>: only sets the timer of the next tick.\<close>

definition sync :: "state \<Rightarrow> state" where
  "sync s = s\<lparr>timers := timers s @ [(clock s + SYNC_CHECK_INTERVAL_MS, SyncTick)]\<rparr>"

text \<open>\<^verbatim>\<open>start\<close>. The promise it returns is named by the index of its session. The
  assignment to \<^verbatim>\<open>_syncPromise\<close> comes after the body of \<^verbatim>\<open>Q.try\<close> has run.\<close>

definition start :: "state \<Rightarrow> nat \<times> state" where
  "start s =
     (case syncPromise s of
        Some p \<Rightarrow> (p, log WarnAlreadyInProgress s)
      | None \<Rightarrow>
          (let sid = length (sessions s) in
           if \<not> connected s
           then (sid, s\<lparr>sessions := sessions s @ [\<lparr>inner = Rejected NotConnected, outer = Pending\<rparr>],
                        jobs := jobs s @ [SessionSettled sid],
                        syncPromise := Some sid\<rparr>)
           else
             (let s1 = log InfoStartingLoop s;
                  s2 = s1\<lparr>syncInProgress := True, onSyncDone := Some sid, onSyncError := Some sid\<rparr>;
                  s3 = emit Starting s2;
                  s4 = s3\<lparr>skipListeners := skipListeners s3 + 1\<rparr>;
                  s5 = sync s4
              in (sid, s5\<lparr>sessions := sessions s5 @ [\<lparr>inner = Pending, outer = Pending\<rparr>],
                          syncPromise := Some sid\<rparr>))))"

text \<open>\<^verbatim>\<open>stop\<close>. The promise it returns is named by its index in \<open>stops\<close>.\<close>

definition stop :: "state \<Rightarrow> nat \<times> state" where
  "stop s =
     (let pid = length (stops s) in
      if \<not> syncInProgress s
      then (pid, (log DebugNotInProgress s)
                   \<lparr>stops := stops s @ [\<lparr>settled = Fulfilled, then_start = 0\<rparr>]\<rparr>)
      else
        (let s1 = clearState (log InfoStoppingLoop s)
         in (pid, s1\<lparr>timers := timers s1 @ [(clock s1 + SYNC_CHECK_INTERVAL_MS, StopDelay pid)],
                     stops := stops s1 @ [\<lparr>settled = Pending, then_start = 0\<rparr>]\<rparr>)))"

text \<open>The listener of \<^verbatim>\<open>backendAction_skipSync\<close> that \<^verbatim>\<open>start\<close> registers, and the
  arrival of that message, which calls every listener registered at that moment; an
  exception of a listener ends the delivery.\<close>

definition skip_listener :: "state \<Rightarrow> state \<times> error option" where
  "skip_listener s = call_onSyncDone (log InfoSkipped (s\<lparr>skipListeners := 0\<rparr>))"

primrec run_listeners :: "nat \<Rightarrow> state \<Rightarrow> state" where
  "run_listeners 0 s = s"
| "run_listeners (Suc n) s =
     (case skip_listener s of
        (s', None) \<Rightarrow> run_listeners n s'
      | (s', Some e) \<Rightarrow> s'\<lparr>unhandled := unhandled s' @ [e]\<rparr>)"

definition skip :: "state \<Rightarrow> state" where
  "skip s = run_listeners (skipListeners s) s"

section \<open>The poll loop\<close>

text \<open>The callback of the timer set by \<^verbatim>\<open>_sync\<close>.\<close>

definition tick :: "state \<Rightarrow> state" where
  "tick s =
     (if \<not> syncInProgress s then log DebugNoLongerInProgress s
      else (let s1 = log TraceCheckStatus s in s1\<lparr>rpcs := rpcs s1 @ [EthSyncing]\<rparr>))"

text \<open>The \<^verbatim>\<open>.then\<close> callback of the \<^verbatim>\<open>eth_syncing\<close> call, on \<^verbatim>\<open>ret.result\<close>. It
  returns the state and the error it throws, if any.\<close>

definition on_syncing_result :: "payload \<Rightarrow> state \<Rightarrow> state \<times> error option" where
  "on_syncing_result result s =
     (case result of
        Absent \<Rightarrow>
          (let s1 = log DebugCheckBlock s in (s1\<lparr>rpcs := rpcs s1 @ [GetBlock result]\<rparr>, None))
      | ErrorPayload c \<Rightarrow>
          (let s1 = log (TraceSyncStatus result) s in
           if c = Some (- 32601) then call_onSyncDone (log WarnNotImplemented s1)
           else (s1, Some (Unexpected c)))
      | SyncStatus d \<Rightarrow>
          (sync (emit (NodeSyncing result) (log (TraceSyncStatus result) s)), None))"

text \<open>The \<^verbatim>\<open>.then\<close> callback of the \<^verbatim>\<open>eth_getBlockByNumber\<close> call; \<open>result\<close> is the
  variable of the enclosing callback.\<close>

definition on_block_result :: "payload \<Rightarrow> block \<Rightarrow> state \<Rightarrow> state \<times> error option" where
  "on_block_result result blockResult s =
     (let now = int (clock s div 1000) in
      case blockResult of
        NoBlock \<Rightarrow> (sync s, None)
      | Block timestamp \<Rightarrow>
          (let s1 = log (DebugLastBlock timestamp) s;
               diff = now - timestamp
           in if diff > 60
              then (sync (log TraceKeepSyncing (emit (NodeSyncing result) s1)), None)
              else call_onSyncDone (log InfoNoMoreSync s1)))"

text \<open>The \<^verbatim>\<open>.catch\<close> callback at the end of the chain. What it throws itself is a
  rejection nobody handles.\<close>

definition on_rpc_error :: "error \<Rightarrow> state \<Rightarrow> state" where
  "on_rpc_error err s =
     (case call_onSyncError err (log (ErrorNodeCrashed err) s) of
        (s', None) \<Rightarrow> s'
      | (s', Some e) \<Rightarrow> s'\<lparr>unhandled := unhandled s' @ [e]\<rparr>)"

definition finish_chain :: "state \<times> error option \<Rightarrow> state" where
  "finish_chain r = (case r of (s, None) \<Rightarrow> s | (s, Some e) \<Rightarrow> on_rpc_error e s)"

definition syncing_reply :: "payload reply \<Rightarrow> state \<Rightarrow> state" where
  "syncing_reply r s =
     (case r of
        Failed n \<Rightarrow> on_rpc_error (Transport n) s
      | Response result \<Rightarrow> finish_chain (on_syncing_result result s))"

definition block_reply :: "payload \<Rightarrow> block reply \<Rightarrow> state \<Rightarrow> state" where
  "block_reply result r s =
     (case r of
        Failed n \<Rightarrow> on_rpc_error (Transport n) s
      | Response blockResult \<Rightarrow> finish_chain (on_block_result result blockResult s))"

section \<open>Promise reactions and the node's lifecycle\<close>

text \<open>The reactions that \<^verbatim>\<open>start\<close> chains on the inner promise. \<^verbatim>\<open>.then\<close> emits
  \<^verbatim>\<open>finished\<close>; \<^verbatim>\<open>.catch\<close> logs and emits \<^verbatim>\<open>error\<close>, and what it throws rejects the
  promise it returns; \<^verbatim>\<open>.finally\<close> logs, clears the state and passes on what it got,
  which settles the outer promise.\<close>

definition finally_settled :: "nat \<Rightarrow> pstate \<Rightarrow> state \<Rightarrow> state" where
  "finally_settled sid v s =
     (let s1 = clearState (log InfoLoopEnded s)
      in s1\<lparr>sessions := (sessions s1)[sid := (sessions s1 ! sid)\<lparr>outer := v\<rparr>]\<rparr>)"

definition session_settled :: "nat \<Rightarrow> state \<Rightarrow> state" where
  "session_settled sid s =
     (if sid < length (sessions s) then
        (case inner (sessions s ! sid) of
           Pending \<Rightarrow> s
         | Fulfilled \<Rightarrow> finally_settled sid Fulfilled (emit Finished s)
         | Rejected err \<Rightarrow>
             (case emit_error err (log (ErrorSync err) s) of
                (s1, None) \<Rightarrow> finally_settled sid Fulfilled s1
              | (s1, Some e) \<Rightarrow> finally_settled sid (Rejected e) s1))
      else s)"

text \<open>The reaction on \<^verbatim>\<open>Q.delay\<close> in \<^verbatim>\<open>stop\<close>: emits \<^verbatim>\<open>stopped\<close>; the promise of that
  \<^verbatim>\<open>stop\<close> is then fulfilled and its own reactions are queued.\<close>

definition stop_delayed :: "nat \<Rightarrow> state \<Rightarrow> state" where
  "stop_delayed pid s =
     (let s1 = emit Stopped s in
      if pid < length (stops s1)
      then s1\<lparr>stops := (stops s1)[pid := (stops s1 ! pid)\<lparr>settled := Fulfilled\<rparr>],
              jobs := jobs s1 @ replicate (then_start (stops s1 ! pid)) (ThenStart pid)\<rparr>
      else s1)"

text \<open>\<^verbatim>\<open>p.then(() => { this.start(); })\<close> on the promise of a \<^verbatim>\<open>stop\<close>: the reaction
  waits on a pending promise and is queued on a fulfilled one.\<close>

definition then_start_on :: "nat \<Rightarrow> state \<Rightarrow> state" where
  "then_start_on pid s =
     (if pid < length (stops s) then
        (case settled (stops s ! pid) of
           Pending \<Rightarrow>
             s\<lparr>stops := (stops s)[pid := (stops s ! pid)\<lparr>then_start := then_start (stops s ! pid) + 1\<rparr>]\<rparr>
         | Fulfilled \<Rightarrow> s\<lparr>jobs := jobs s @ [ThenStart pid]\<rparr>
         | Rejected e \<Rightarrow> s)
      else s)"

definition onNodeStateChanged :: "node_state \<Rightarrow> state \<Rightarrow> state" where
  "onNodeStateChanged st s =
     (case st of
        NodeStopping \<Rightarrow> snd (stop (log InfoNodeStopping s))
      | NodeConnected \<Rightarrow>
          (case stop (log InfoNodeConnected s) of (pid, s1) \<Rightarrow> then_start_on pid s1)
      | _ \<Rightarrow> s)"

definition run_job :: "job \<Rightarrow> state \<Rightarrow> state" where
  "run_job j s =
     (case j of
        SessionSettled sid \<Rightarrow> session_settled sid s
      | StopDelayed pid \<Rightarrow> stop_delayed pid s
      | ThenStart pid \<Rightarrow> snd (start s))"

section \<open>The event loop\<close>

text \<open>What can happen to the object, one turn of the event loop each: a call of a
  public method, the skip message, a lifecycle event of the node, the transport going
  up or down, the callers changing the number of \<^verbatim>\<open>error\<close> listeners, time
  passing, a timer that is due firing, the reply to a call in flight, and the promise
  library running the oldest queued reaction.\<close>

datatype input =
    CallStart
  | CallStop
  | SkipSync
  | NodeState node_state
  | SetConnected bool
  | ErrorListeners nat
  | Advance nat
  | Fire nat
  | SyncingReply nat "payload reply"
  | BlockReply nat "block reply"
  | RunJob

definition remove_nth :: "nat \<Rightarrow> 'a list \<Rightarrow> 'a list" where
  "remove_nth i xs = take i xs @ drop (Suc i) xs"

definition fire :: "nat \<Rightarrow> state \<Rightarrow> state" where
  "fire i s =
     (if i < length (timers s) \<and> fst (timers s ! i) \<le> clock s then
        (let s1 = s\<lparr>timers := remove_nth i (timers s)\<rparr> in
         case snd (timers s ! i) of
           SyncTick \<Rightarrow> tick s1
         | StopDelay pid \<Rightarrow> s1\<lparr>jobs := jobs s1 @ [StopDelayed pid]\<rparr>)
      else s)"

definition step :: "input \<Rightarrow> state \<Rightarrow> state" where
  "step i s =
     (case i of
        CallStart \<Rightarrow> snd (start s)
      | CallStop \<Rightarrow> snd (stop s)
      | SkipSync \<Rightarrow> skip s
      | NodeState st \<Rightarrow> onNodeStateChanged st s
      | SetConnected c \<Rightarrow> s\<lparr>connected := c\<rparr>
      | ErrorListeners n \<Rightarrow> s\<lparr>errorListeners := n\<rparr>
      | Advance d \<Rightarrow> s\<lparr>clock := clock s + d\<rparr>
      | Fire k \<Rightarrow> fire k s
      | SyncingReply k r \<Rightarrow>
          (if k < length (rpcs s) then
             (case rpcs s ! k of
                EthSyncing \<Rightarrow> syncing_reply r (s\<lparr>rpcs := remove_nth k (rpcs s)\<rparr>)
              | GetBlock result \<Rightarrow> s)
           else s)
      | BlockReply k r \<Rightarrow>
          (if k < length (rpcs s) then
             (case rpcs s ! k of
                EthSyncing \<Rightarrow> s
              | GetBlock result \<Rightarrow> block_reply result r (s\<lparr>rpcs := remove_nth k (rpcs s)\<rparr>))
           else s)
      | RunJob \<Rightarrow> (case jobs s of [] \<Rightarrow> s | j # js \<Rightarrow> run_job j (s\<lparr>jobs := js\<rparr>)))"

definition run :: "input list \<Rightarrow> state \<Rightarrow> state" where
  "run is s = fold step is s"

section \<open>Sessions\<close>

text \<open>A session is active when the object still refers to it: its promise is the value
  of \<^verbatim>\<open>_syncPromise\<close>, or one of its two settling functions is the value of
  \<^verbatim>\<open>_onSyncDone\<close> or \<^verbatim>\<open>_onSyncError\<close>.\<close>

definition active :: "state \<Rightarrow> nat \<Rightarrow> bool" where
  "active s sid \<longleftrightarrow> syncPromise s = Some sid \<or> onSyncDone s = Some sid \<or> onSyncError s = Some sid"

text \<open>The three fields agree on the session they name.\<close>

definition coherent :: "state \<Rightarrow> bool" where
  "coherent s \<longleftrightarrow>
     onSyncError s = onSyncDone s \<and> (onSyncDone s = None \<or> syncPromise s = onSyncDone s)"

text \<open>Every \<^verbatim>\<open>eth_getBlockByNumber\<close> call in flight was issued where \<^verbatim>\<open>result\<close> is
  falsy.\<close>

definition block_calls_absent :: "state \<Rightarrow> bool" where
  "block_calls_absent s \<longleftrightarrow> (\<forall>r \<in> set (rpcs s). r = EthSyncing \<or> r = GetBlock Absent)"

text \<open>How the promise returned by \<^verbatim>\<open>start\<close> follows the inner promise of its
  session: it is settled only after the inner one, it is rejected only with the error
  the inner one was rejected with, and once the inner one is settled the reactions of
  the chain are queued or have run.\<close>

definition promises_kept :: "state \<Rightarrow> bool" where
  "promises_kept s \<longleftrightarrow>
     (\<forall>sid < length (sessions s).
        (outer (sessions s ! sid) = Fulfilled \<longrightarrow> inner (sessions s ! sid) \<noteq> Pending)
      \<and> (\<forall>e. outer (sessions s ! sid) = Rejected e \<longrightarrow> inner (sessions s ! sid) = Rejected e)
      \<and> (inner (sessions s ! sid) \<noteq> Pending \<longrightarrow>
           SessionSettled sid \<in> set (jobs s) \<or> outer (sessions s ! sid) \<noteq> Pending))"

text \<open>An \<^verbatim>\<open>error\<close> listener is registered and no returned promise has been rejected;
  the inputs that leave a listener registered.\<close>

definition heard :: "state \<Rightarrow> bool" where
  "heard s \<longleftrightarrow>
     0 < errorListeners s
   \<and> (\<forall>sid < length (sessions s). \<forall>e. outer (sessions s ! sid) \<noteq> Rejected e)"

fun keeps_listener :: "input \<Rightarrow> bool" where
  "keeps_listener (ErrorListeners n) = (0 < n)"
| "keeps_listener i = True"

text \<open>A session nothing can settle any more: both promises are pending, neither
  \<^verbatim>\<open>_onSyncDone\<close> nor \<^verbatim>\<open>_onSyncError\<close> holds its settling functions, and its
  reactions are not queued.\<close>

definition orphaned :: "state \<Rightarrow> nat \<Rightarrow> bool" where
  "orphaned s sid \<longleftrightarrow>
     sid < length (sessions s)
   \<and> inner (sessions s ! sid) = Pending
   \<and> outer (sessions s ! sid) = Pending
   \<and> onSyncDone s \<noteq> Some sid
   \<and> onSyncError s \<noteq> Some sid
   \<and> SessionSettled sid \<notin> set (jobs s)"

section \<open>The grace delay of stop\<close>

fun stop_timer :: "nat \<times> timer \<Rightarrow> bool" where
  "stop_timer (d, SyncTick) = False"
| "stop_timer (d, StopDelay p) = True"

fun stop_job :: "job \<Rightarrow> bool" where
  "stop_job (SessionSettled sid) = False"
| "stop_job (StopDelayed p) = True"
| "stop_job (ThenStart p) = True"

text \<open>What the grace delay of \<^verbatim>\<open>stop\<close> can see of a state: the promises of the
  \<^verbatim>\<open>stop\<close> calls, the timers and reactions that belong to them, the number of
  \<^verbatim>\<open>stopped\<close> events and the number of times a running loop was stopped.\<close>

definition stop_view :: "state \<Rightarrow> stop_promise list \<times> (nat \<times> timer) list \<times> job list \<times> nat \<times> nat" where
  "stop_view s = (stops s, filter stop_timer (timers s), filter stop_job (jobs s),
     length (filter (\<lambda>e. e = Stopped) (events s)),
     length (filter (\<lambda>l. l = InfoStoppingLoop) (logs s)))"

text \<open>The timers and reactions that will still emit \<^verbatim>\<open>stopped\<close> for the promise
  \<open>p\<close> of a \<^verbatim>\<open>stop\<close>, and what a promise is owed: one while it is pending.\<close>

definition pend :: "(nat \<times> timer) list \<Rightarrow> job list \<Rightarrow> nat \<Rightarrow> nat" where
  "pend ts js p = length (filter (\<lambda>x. snd x = StopDelay p) ts)
                + length (filter (\<lambda>j. j = StopDelayed p) js)"

definition owed :: "stop_promise list \<Rightarrow> nat \<Rightarrow> nat" where
  "owed sps p = (if p < length sps \<and> settled (sps ! p) = Pending then 1 else 0)"

fun delayed_job :: "job \<Rightarrow> bool" where
  "delayed_job (StopDelayed p) = True"
| "delayed_job j = False"

definition grace_ok :: "stop_promise list \<times> (nat \<times> timer) list \<times> job list \<times> nat \<times> nat \<Rightarrow> bool" where
  "grace_ok v \<longleftrightarrow>
     (case v of (sps, ts, js, ne, nl) \<Rightarrow>
        (\<forall>p. pend ts js p = owed sps p)
      \<and> (\<forall>p. ThenStart p \<in> set js \<longrightarrow> p < length sps \<and> settled (sps ! p) = Fulfilled)
      \<and> ne + length ts + length (filter delayed_job js) = nl)"

definition graceful :: "state \<Rightarrow> bool" where
  "graceful s = grace_ok (stop_view s)"

section \<open>Unfolding the model\<close>

lemmas monitor_defs =
  init_def emit_def emit_error_def finally_settled_def log_def clearState_def settle_def call_onSyncDone_def call_onSyncError_def
  sync_def start_def stop_def skip_listener_def skip_def tick_def on_syncing_result_def
  on_block_result_def on_rpc_error_def finish_chain_def syncing_reply_def block_reply_def
  session_settled_def stop_delayed_def then_start_on_def onNodeStateChanged_def run_job_def
  remove_nth_def fire_def step_def run_def SYNC_CHECK_INTERVAL_MS_def Let_def

lemmas reply_defs = step_def syncing_reply_def block_reply_def finish_chain_def
  on_syncing_result_def on_block_result_def on_rpc_error_def call_onSyncDone_def
  call_onSyncError_def settle_def sync_def emit_def log_def remove_nth_def
  SYNC_CHECK_INTERVAL_MS_def Let_def

section \<open>The fields name one session\<close>

lemma coherent_init: "coherent (init t c)"
  by (simp add: coherent_def init_def)

lemma coherent_emit [simp]: "coherent (emit e s) = coherent s"
  by (simp add: coherent_def emit_def)

lemma coherent_log [simp]: "coherent (log l s) = coherent s"
  by (simp add: coherent_def log_def)

lemma coherent_sync [simp]: "coherent (sync s) = coherent s"
  by (simp add: coherent_def sync_def)

lemma coherent_settle [simp]: "coherent (settle sid v s) = coherent s"
  by (simp add: coherent_def settle_def)

lemma coherent_clearState [simp]: "coherent (clearState s)"
  by (simp add: coherent_def clearState_def)

lemma coherent_start: "coherent s \<Longrightarrow> coherent (snd (start s))"
  by (auto simp: coherent_def start_def Let_def emit_def log_def sync_def split: option.splits)

lemma coherent_stop: "coherent s \<Longrightarrow> coherent (snd (stop s))"
  by (auto simp: coherent_def stop_def Let_def log_def clearState_def split: option.splits)

lemma coherent_call_onSyncDone: "coherent s \<Longrightarrow> coherent (fst (call_onSyncDone s))"
  by (simp add: call_onSyncDone_def split: option.splits)

lemma coherent_call_onSyncError: "coherent s \<Longrightarrow> coherent (fst (call_onSyncError e s))"
  by (simp add: call_onSyncError_def split: option.splits)

lemma coherent_unhandled [simp]: "coherent (s\<lparr>unhandled := u\<rparr>) = coherent s"
  by (simp add: coherent_def)

lemma coherent_rpcs [simp]: "coherent (s\<lparr>rpcs := u\<rparr>) = coherent s"
  by (simp add: coherent_def)

lemma coherent_jobs [simp]: "coherent (s\<lparr>jobs := u\<rparr>) = coherent s"
  by (simp add: coherent_def)

lemma coherent_timers [simp]: "coherent (s\<lparr>timers := u\<rparr>) = coherent s"
  by (simp add: coherent_def)

lemma coherent_stops [simp]: "coherent (s\<lparr>stops := u\<rparr>) = coherent s"
  by (simp add: coherent_def)

lemma coherent_sessions [simp]: "coherent (s\<lparr>sessions := u\<rparr>) = coherent s"
  by (simp add: coherent_def)

lemma coherent_skipListeners [simp]: "coherent (s\<lparr>skipListeners := u\<rparr>) = coherent s"
  by (simp add: coherent_def)

lemma coherent_connected [simp]: "coherent (s\<lparr>connected := u\<rparr>) = coherent s"
  by (simp add: coherent_def)

lemma coherent_errorListeners [simp]: "coherent (s\<lparr>errorListeners := u\<rparr>) = coherent s"
  by (simp add: coherent_def)

lemma coherent_clock [simp]: "coherent (s\<lparr>clock := u\<rparr>) = coherent s"
  by (simp add: coherent_def)

lemma coherent_skip_listener: "coherent s \<Longrightarrow> coherent (fst (skip_listener s))"
  by (simp add: skip_listener_def coherent_call_onSyncDone)

lemma coherent_run_listeners: "coherent s \<Longrightarrow> coherent (run_listeners n s)"
proof (induction n arbitrary: s)
  case 0
  then show ?case by simp
next
  case (Suc n)
  from Suc.prems have "coherent (fst (skip_listener s))" by (rule coherent_skip_listener)
  then show ?case
    by (cases "skip_listener s") (auto split: option.splits intro: Suc.IH)
qed

lemma coherent_skip: "coherent s \<Longrightarrow> coherent (skip s)"
  by (simp add: skip_def coherent_run_listeners)

lemma coherent_on_rpc_error: "coherent s \<Longrightarrow> coherent (on_rpc_error e s)"
proof -
  assume "coherent s"
  then have "coherent (fst (call_onSyncError e (log (ErrorNodeCrashed e) s)))"
    by (simp add: coherent_call_onSyncError)
  then show ?thesis
    by (cases "call_onSyncError e (log (ErrorNodeCrashed e) s)")
       (auto simp: on_rpc_error_def split: option.splits)
qed

lemma coherent_finish_chain: "coherent (fst r) \<Longrightarrow> coherent (finish_chain r)"
  by (cases r) (auto simp: finish_chain_def coherent_on_rpc_error split: option.splits)

lemma coherent_on_syncing_result: "coherent s \<Longrightarrow> coherent (fst (on_syncing_result r s))"
  by (cases r) (simp_all add: on_syncing_result_def Let_def coherent_call_onSyncDone)

lemma coherent_on_block_result: "coherent s \<Longrightarrow> coherent (fst (on_block_result r b s))"
  by (cases b) (simp_all add: on_block_result_def Let_def coherent_call_onSyncDone)

lemma coherent_syncing_reply: "coherent s \<Longrightarrow> coherent (syncing_reply r s)"
  by (cases r) (simp_all add: syncing_reply_def coherent_on_rpc_error coherent_finish_chain
      coherent_on_syncing_result)

lemma coherent_block_reply: "coherent s \<Longrightarrow> coherent (block_reply p r s)"
  by (cases r) (simp_all add: block_reply_def coherent_on_rpc_error coherent_finish_chain
      coherent_on_block_result)

lemma coherent_tick: "coherent s \<Longrightarrow> coherent (tick s)"
  by (simp add: tick_def Let_def)

lemma coherent_fire: "coherent s \<Longrightarrow> coherent (fire i s)"
  by (simp add: fire_def Let_def coherent_tick split: timer.splits)

lemma coherent_session_settled: "coherent s \<Longrightarrow> coherent (session_settled sid s)"
  by (simp add: session_settled_def finally_settled_def emit_error_def Let_def
      split: pstate.splits)

lemma coherent_stop_delayed: "coherent s \<Longrightarrow> coherent (stop_delayed pid s)"
  by (simp add: stop_delayed_def Let_def)

lemma coherent_then_start_on: "coherent s \<Longrightarrow> coherent (then_start_on pid s)"
  by (simp add: then_start_on_def split: pstate.splits)

lemma coherent_onNodeStateChanged: "coherent s \<Longrightarrow> coherent (onNodeStateChanged st s)"
proof (cases st)
  case NodeConnected
  assume c: "coherent s"
  then have "coherent (snd (stop (log InfoNodeConnected s)))"
    by (simp add: coherent_stop)
  then show ?thesis using NodeConnected
    by (cases "stop (log InfoNodeConnected s)")
       (simp add: onNodeStateChanged_def coherent_then_start_on)
qed (simp_all add: onNodeStateChanged_def coherent_stop)

lemma coherent_run_job: "coherent s \<Longrightarrow> coherent (run_job j s)"
  by (cases j) (simp_all add: run_job_def coherent_session_settled coherent_stop_delayed coherent_start)

lemma coherent_step: "coherent s \<Longrightarrow> coherent (step i s)"
  by (cases i)
     (simp_all add: step_def coherent_start coherent_stop coherent_skip
        coherent_onNodeStateChanged coherent_fire coherent_syncing_reply coherent_block_reply
        coherent_run_job split: rpc.splits list.splits)

lemma coherent_run: "coherent s \<Longrightarrow> coherent (run is s)"
  by (induction "is" arbitrary: s) (simp_all add: run_def coherent_step)

lemma coherent_active: "coherent s \<Longrightarrow> active s a \<Longrightarrow> active s b \<Longrightarrow> a = b"
  by (auto simp: coherent_def active_def split: option.splits)

lemma start_again: "syncPromise s = Some p \<Longrightarrow> start s = (p, s\<lparr>logs := logs s @ [WarnAlreadyInProgress]\<rparr>)"
  by (simp add: start_def log_def)

lemma start_sets_promise: "syncPromise (snd (start s)) = Some (fst (start s))"
  by (simp add: start_def log_def Let_def split: option.splits)


section \<open>Calls in flight\<close>

lemma set_remove_nth: "set (remove_nth k xs) \<subseteq> set xs"
  by (auto simp: remove_nth_def dest: in_set_takeD in_set_dropD)

lemma rpcs_emit [simp]: "rpcs (emit e s) = rpcs s" by (simp add: emit_def)
lemma rpcs_log [simp]: "rpcs (log l s) = rpcs s" by (simp add: log_def)
lemma rpcs_sync [simp]: "rpcs (sync s) = rpcs s" by (simp add: sync_def)
lemma rpcs_clearState [simp]: "rpcs (clearState s) = rpcs s" by (simp add: clearState_def)
lemma rpcs_settle [simp]: "rpcs (settle sid v s) = rpcs s" by (simp add: settle_def)

lemma rpcs_call_onSyncDone [simp]: "rpcs (fst (call_onSyncDone s)) = rpcs s"
  by (simp add: call_onSyncDone_def split: option.splits)

lemma rpcs_call_onSyncError [simp]: "rpcs (fst (call_onSyncError e s)) = rpcs s"
  by (simp add: call_onSyncError_def split: option.splits)

lemma rpcs_start [simp]: "rpcs (snd (start s)) = rpcs s"
  by (simp add: start_def Let_def split: option.splits)

lemma rpcs_stop [simp]: "rpcs (snd (stop s)) = rpcs s"
  by (simp add: stop_def Let_def)

lemma rpcs_skip_listener [simp]: "rpcs (fst (skip_listener s)) = rpcs s"
  by (simp add: skip_listener_def)

lemma rpcs_run_listeners [simp]: "rpcs (run_listeners n s) = rpcs s"
proof (induction n arbitrary: s)
  case 0
  show ?case by simp
next
  case (Suc n)
  have "rpcs (fst (skip_listener s)) = rpcs s" by simp
  then show ?case
    by (cases "skip_listener s") (auto simp: Suc.IH split: option.splits)
qed

lemma rpcs_skip [simp]: "rpcs (skip s) = rpcs s"
  by (simp add: skip_def)

lemma rpcs_on_rpc_error [simp]: "rpcs (on_rpc_error e s) = rpcs s"
proof -
  have "rpcs (fst (call_onSyncError e (log (ErrorNodeCrashed e) s))) = rpcs s" by simp
  then show ?thesis
    by (cases "call_onSyncError e (log (ErrorNodeCrashed e) s)")
       (auto simp: on_rpc_error_def split: option.splits)
qed

lemma rpcs_finish_chain [simp]: "rpcs (finish_chain r) = rpcs (fst r)"
  by (cases r) (auto simp: finish_chain_def split: option.splits)

lemma rpcs_on_syncing_result:
  "rpcs (fst (on_syncing_result r s)) = (if r = Absent then rpcs s @ [GetBlock Absent] else rpcs s)"
  by (cases r) (simp_all add: on_syncing_result_def Let_def)

lemma rpcs_on_block_result [simp]: "rpcs (fst (on_block_result r b s)) = rpcs s"
  by (cases b) (simp_all add: on_block_result_def Let_def)

lemma rpcs_session_settled [simp]: "rpcs (session_settled sid s) = rpcs s"
  by (simp add: session_settled_def finally_settled_def emit_error_def Let_def
      split: pstate.splits)

lemma rpcs_stop_delayed [simp]: "rpcs (stop_delayed pid s) = rpcs s"
  by (simp add: stop_delayed_def Let_def)

lemma rpcs_then_start_on [simp]: "rpcs (then_start_on pid s) = rpcs s"
  by (simp add: then_start_on_def split: pstate.splits)

lemma rpcs_onNodeStateChanged [simp]: "rpcs (onNodeStateChanged st s) = rpcs s"
proof (cases st)
  case NodeConnected
  have "rpcs (snd (stop (log InfoNodeConnected s))) = rpcs s" by simp
  then show ?thesis using NodeConnected
    by (cases "stop (log InfoNodeConnected s)") (simp add: onNodeStateChanged_def)
qed (simp_all add: onNodeStateChanged_def)

lemma rpcs_run_job [simp]: "rpcs (run_job j s) = rpcs s"
  by (cases j) (simp_all add: run_job_def)

lemma rpcs_tick: "rpcs (tick s) = (if syncInProgress s then rpcs s @ [EthSyncing] else rpcs s)"
  by (simp add: tick_def Let_def)

lemma rpcs_fire: "set (rpcs (fire i s)) \<subseteq> insert EthSyncing (set (rpcs s))"
  by (auto simp: fire_def Let_def rpcs_tick split: timer.splits)

lemma block_calls_absent_syncing_reply:
  "block_calls_absent s \<Longrightarrow> block_calls_absent (syncing_reply r s)"
  by (cases r) (auto simp: block_calls_absent_def syncing_reply_def rpcs_on_syncing_result)

lemma block_calls_absent_block_reply:
  "block_calls_absent s \<Longrightarrow> block_calls_absent (block_reply p r s)"
  by (cases r) (auto simp: block_calls_absent_def block_reply_def)

lemma block_calls_absent_remove:
  "block_calls_absent s \<Longrightarrow> block_calls_absent (s\<lparr>rpcs := remove_nth k (rpcs s)\<rparr>)"
  using set_remove_nth [of k "rpcs s"] by (auto simp: block_calls_absent_def)

lemma block_calls_absent_step: "block_calls_absent s \<Longrightarrow> block_calls_absent (step i s)"
proof (cases i)
  case (Fire k)
  assume "block_calls_absent s"
  then show ?thesis using Fire rpcs_fire [of k s]
    by (auto simp: step_def block_calls_absent_def)
next
  case (SyncingReply k r)
  assume "block_calls_absent s"
  then show ?thesis using SyncingReply
    by (simp add: step_def block_calls_absent_syncing_reply block_calls_absent_remove
        split: rpc.splits)
next
  case (BlockReply k r)
  assume "block_calls_absent s"
  then show ?thesis using BlockReply
    by (simp add: step_def block_calls_absent_block_reply block_calls_absent_remove
        split: rpc.splits)
qed (simp_all add: step_def block_calls_absent_def split: list.splits)

lemma block_calls_absent_run: "block_calls_absent s \<Longrightarrow> block_calls_absent (run is s)"
  by (induction "is" arbitrary: s) (simp_all add: run_def block_calls_absent_step)

lemma block_calls_absent_init: "block_calls_absent (init t c)"
  by (simp add: block_calls_absent_def init_def)

section \<open>The returned promise follows the inner one\<close>

lemma promises_kept_init: "promises_kept (init t c)"
  by (simp add: promises_kept_def init_def)

lemma promises_kept_emit [simp]: "promises_kept (emit e s) = promises_kept s"
  by (simp add: promises_kept_def emit_def)

lemma promises_kept_log [simp]: "promises_kept (log l s) = promises_kept s"
  by (simp add: promises_kept_def log_def)

lemma promises_kept_sync [simp]: "promises_kept (sync s) = promises_kept s"
  by (simp add: promises_kept_def sync_def)

lemma promises_kept_clearState [simp]: "promises_kept (clearState s) = promises_kept s"
  by (simp add: promises_kept_def clearState_def)

lemma promises_kept_unhandled [simp]: "promises_kept (s\<lparr>unhandled := u\<rparr>) = promises_kept s"
  by (simp add: promises_kept_def)

lemma promises_kept_rpcs [simp]: "promises_kept (s\<lparr>rpcs := u\<rparr>) = promises_kept s"
  by (simp add: promises_kept_def)

lemma promises_kept_timers [simp]: "promises_kept (s\<lparr>timers := u\<rparr>) = promises_kept s"
  by (simp add: promises_kept_def)

lemma promises_kept_stops [simp]: "promises_kept (s\<lparr>stops := u\<rparr>) = promises_kept s"
  by (simp add: promises_kept_def)

lemma promises_kept_skipListeners [simp]: "promises_kept (s\<lparr>skipListeners := u\<rparr>) = promises_kept s"
  by (simp add: promises_kept_def)

lemma promises_kept_errorListeners [simp]: "promises_kept (s\<lparr>errorListeners := u\<rparr>) = promises_kept s"
  by (simp add: promises_kept_def)

lemma promises_kept_connected [simp]: "promises_kept (s\<lparr>connected := u\<rparr>) = promises_kept s"
  by (simp add: promises_kept_def)

lemma promises_kept_clock [simp]: "promises_kept (s\<lparr>clock := u\<rparr>) = promises_kept s"
  by (simp add: promises_kept_def)

lemma promises_kept_jobs:
  "promises_kept s \<Longrightarrow> set (jobs s) \<subseteq> set js \<Longrightarrow> promises_kept (s\<lparr>jobs := js\<rparr>)"
  by (auto simp: promises_kept_def)

lemma promises_kept_settle: "promises_kept s \<Longrightarrow> promises_kept (settle sid v s)"
proof (cases "sid < length (sessions s) \<and> inner (sessions s ! sid) = Pending")
  case False
  assume "promises_kept s"
  with False show ?thesis by (auto simp: settle_def)
next
  case True
  assume k: "promises_kept s"
  with True have o: "outer (sessions s ! sid) = Pending"
    by (cases "outer (sessions s ! sid)") (auto simp: promises_kept_def)
  show ?thesis
    unfolding promises_kept_def
  proof (intro allI impI)
    fix q assume "q < length (sessions (settle sid v s))"
    then have q: "q < length (sessions s)" by (simp add: settle_def split: if_splits)
    show "(outer (sessions (settle sid v s) ! q) = Fulfilled \<longrightarrow>
            inner (sessions (settle sid v s) ! q) \<noteq> Pending)
        \<and> (\<forall>e. outer (sessions (settle sid v s) ! q) = Rejected e \<longrightarrow>
              inner (sessions (settle sid v s) ! q) = Rejected e)
        \<and> (inner (sessions (settle sid v s) ! q) \<noteq> Pending \<longrightarrow>
              SessionSettled q \<in> set (jobs (settle sid v s))
            \<or> outer (sessions (settle sid v s) ! q) \<noteq> Pending)"
    proof (cases "q = sid")
      case True
      with \<open>sid < length (sessions s) \<and> inner (sessions s ! sid) = Pending\<close> o
      show ?thesis by (simp add: settle_def)
    next
      case False
      with k q \<open>sid < length (sessions s) \<and> inner (sessions s ! sid) = Pending\<close>
      show ?thesis by (simp add: settle_def promises_kept_def)
    qed
  qed
qed

lemma promises_kept_call_onSyncDone:
  "promises_kept s \<Longrightarrow> promises_kept (fst (call_onSyncDone s))"
  by (simp add: call_onSyncDone_def promises_kept_settle split: option.splits)

lemma promises_kept_call_onSyncError:
  "promises_kept s \<Longrightarrow> promises_kept (fst (call_onSyncError e s))"
  by (simp add: call_onSyncError_def promises_kept_settle split: option.splits)

lemma promises_kept_start: "promises_kept s \<Longrightarrow> promises_kept (snd (start s))"
  by (auto simp: promises_kept_def start_def Let_def emit_def log_def sync_def nth_append
      split: option.splits)

lemma promises_kept_stop: "promises_kept s \<Longrightarrow> promises_kept (snd (stop s))"
  by (simp add: stop_def Let_def)

lemma promises_kept_stop_delayed: "promises_kept s \<Longrightarrow> promises_kept (stop_delayed pid s)"
  by (auto simp: stop_delayed_def Let_def intro: promises_kept_jobs)

lemma promises_kept_then_start_on: "promises_kept s \<Longrightarrow> promises_kept (then_start_on pid s)"
  by (auto simp: then_start_on_def split: pstate.splits intro: promises_kept_jobs)

text \<open>Taking the oldest reaction off the queue and running it.\<close>

lemma promises_kept_pop_settled:
  "promises_kept s \<Longrightarrow> jobs s = SessionSettled sid # js
   \<Longrightarrow> promises_kept (session_settled sid (s\<lparr>jobs := js\<rparr>))"
  by (auto simp: promises_kept_def session_settled_def finally_settled_def emit_error_def
      Let_def clearState_def emit_def log_def nth_list_update split: pstate.splits)

lemma promises_kept_drop_other:
  "promises_kept s \<Longrightarrow> jobs s = j # js \<Longrightarrow> (\<forall>sid. j \<noteq> SessionSettled sid)
   \<Longrightarrow> promises_kept (s\<lparr>jobs := js\<rparr>)"
  by (auto simp: promises_kept_def)

lemma promises_kept_skip_listener: "promises_kept s \<Longrightarrow> promises_kept (fst (skip_listener s))"
  by (simp add: skip_listener_def promises_kept_call_onSyncDone)

lemma promises_kept_run_listeners: "promises_kept s \<Longrightarrow> promises_kept (run_listeners n s)"
proof (induction n arbitrary: s)
  case 0
  then show ?case by simp
next
  case (Suc n)
  from Suc.prems have "promises_kept (fst (skip_listener s))"
    by (rule promises_kept_skip_listener)
  then show ?case
    by (cases "skip_listener s") (auto split: option.splits intro: Suc.IH)
qed

lemma promises_kept_skip: "promises_kept s \<Longrightarrow> promises_kept (skip s)"
  by (simp add: skip_def promises_kept_run_listeners)

lemma promises_kept_on_rpc_error: "promises_kept s \<Longrightarrow> promises_kept (on_rpc_error e s)"
proof -
  assume "promises_kept s"
  then have "promises_kept (fst (call_onSyncError e (log (ErrorNodeCrashed e) s)))"
    by (simp add: promises_kept_call_onSyncError)
  then show ?thesis
    by (cases "call_onSyncError e (log (ErrorNodeCrashed e) s)")
       (auto simp: on_rpc_error_def split: option.splits)
qed

lemma promises_kept_finish_chain: "promises_kept (fst r) \<Longrightarrow> promises_kept (finish_chain r)"
  by (cases r) (auto simp: finish_chain_def promises_kept_on_rpc_error split: option.splits)

lemma promises_kept_on_syncing_result:
  "promises_kept s \<Longrightarrow> promises_kept (fst (on_syncing_result r s))"
  by (cases r) (simp_all add: on_syncing_result_def Let_def promises_kept_call_onSyncDone)

lemma promises_kept_on_block_result:
  "promises_kept s \<Longrightarrow> promises_kept (fst (on_block_result r b s))"
  by (cases b) (simp_all add: on_block_result_def Let_def promises_kept_call_onSyncDone)

lemma promises_kept_syncing_reply: "promises_kept s \<Longrightarrow> promises_kept (syncing_reply r s)"
  by (cases r) (simp_all add: syncing_reply_def promises_kept_on_rpc_error
      promises_kept_finish_chain promises_kept_on_syncing_result)

lemma promises_kept_block_reply: "promises_kept s \<Longrightarrow> promises_kept (block_reply p r s)"
  by (cases r) (simp_all add: block_reply_def promises_kept_on_rpc_error
      promises_kept_finish_chain promises_kept_on_block_result)

lemma promises_kept_tick: "promises_kept s \<Longrightarrow> promises_kept (tick s)"
  by (simp add: tick_def Let_def)

lemma promises_kept_fire: "promises_kept s \<Longrightarrow> promises_kept (fire i s)"
  by (auto simp: fire_def Let_def promises_kept_tick split: timer.splits intro: promises_kept_jobs)

lemma promises_kept_onNodeStateChanged:
  "promises_kept s \<Longrightarrow> promises_kept (onNodeStateChanged st s)"
proof (cases st)
  case NodeConnected
  assume "promises_kept s"
  then have "promises_kept (snd (stop (log InfoNodeConnected s)))"
    by (simp add: promises_kept_stop)
  then show ?thesis using NodeConnected
    by (cases "stop (log InfoNodeConnected s)")
       (simp add: onNodeStateChanged_def promises_kept_then_start_on)
qed (simp_all add: onNodeStateChanged_def promises_kept_stop)

lemma promises_kept_run_job:
  "promises_kept s \<Longrightarrow> jobs s = j # js \<Longrightarrow> promises_kept (run_job j (s\<lparr>jobs := js\<rparr>))"
proof (cases j)
  case (SessionSettled sid)
  assume "promises_kept s" "jobs s = j # js"
  then show ?thesis using SessionSettled
    by (simp add: run_job_def promises_kept_pop_settled)
next
  case (StopDelayed pid)
  assume "promises_kept s" "jobs s = j # js"
  then have "promises_kept (s\<lparr>jobs := js\<rparr>)"
    using StopDelayed by (auto intro: promises_kept_drop_other)
  then show ?thesis using StopDelayed
    by (simp add: run_job_def promises_kept_stop_delayed)
next
  case (ThenStart pid)
  assume "promises_kept s" "jobs s = j # js"
  then have "promises_kept (s\<lparr>jobs := js\<rparr>)"
    using ThenStart by (auto intro: promises_kept_drop_other)
  then show ?thesis using ThenStart
    by (simp add: run_job_def promises_kept_start)
qed

lemma promises_kept_step: "promises_kept s \<Longrightarrow> promises_kept (step i s)"
  by (cases i)
     (simp_all add: step_def promises_kept_start promises_kept_stop promises_kept_skip
        promises_kept_onNodeStateChanged promises_kept_fire promises_kept_syncing_reply
        promises_kept_block_reply promises_kept_run_job split: rpc.splits list.splits)

lemma promises_kept_run: "promises_kept s \<Longrightarrow> promises_kept (run is s)"
  by (induction "is" arbitrary: s) (simp_all add: run_def promises_kept_step)

lemma promises_kept_reachable: "promises_kept (run is (init t c))"
  by (simp add: promises_kept_run promises_kept_init)

section \<open>With a listener for errors\<close>

lemma heard_emit [simp]: "heard (emit e s) = heard s"
  by (simp add: heard_def emit_def)

lemma heard_log [simp]: "heard (log l s) = heard s"
  by (simp add: heard_def log_def)

lemma heard_sync [simp]: "heard (sync s) = heard s"
  by (simp add: heard_def sync_def)

lemma heard_clearState [simp]: "heard (clearState s) = heard s"
  by (simp add: heard_def clearState_def)

lemma heard_unhandled [simp]: "heard (s\<lparr>unhandled := u\<rparr>) = heard s"
  by (simp add: heard_def)

lemma heard_rpcs [simp]: "heard (s\<lparr>rpcs := u\<rparr>) = heard s"
  by (simp add: heard_def)

lemma heard_timers [simp]: "heard (s\<lparr>timers := u\<rparr>) = heard s"
  by (simp add: heard_def)

lemma heard_stops [simp]: "heard (s\<lparr>stops := u\<rparr>) = heard s"
  by (simp add: heard_def)

lemma heard_skipListeners [simp]: "heard (s\<lparr>skipListeners := u\<rparr>) = heard s"
  by (simp add: heard_def)

lemma heard_connected [simp]: "heard (s\<lparr>connected := u\<rparr>) = heard s"
  by (simp add: heard_def)

lemma heard_clock [simp]: "heard (s\<lparr>clock := u\<rparr>) = heard s"
  by (simp add: heard_def)

lemma heard_jobs [simp]: "heard (s\<lparr>jobs := u\<rparr>) = heard s"
  by (simp add: heard_def)

lemma heard_jobs': "heard s \<Longrightarrow> heard (s\<lparr>jobs := js\<rparr>)"
  by simp

lemma heard_settle: "heard s \<Longrightarrow> heard (settle sid v s)"
proof -
  have "outer ((sessions s)[sid := (sessions s ! sid)\<lparr>inner := v\<rparr>] ! q) = outer (sessions s ! q)"
    if "q < length (sessions s)" for q
    using that by (cases "q = sid") simp_all
  then show "heard s \<Longrightarrow> heard (settle sid v s)"
    by (simp add: heard_def settle_def)
qed

lemma heard_call_onSyncDone: "heard s \<Longrightarrow> heard (fst (call_onSyncDone s))"
  by (simp add: call_onSyncDone_def heard_settle split: option.splits)

lemma heard_call_onSyncError: "heard s \<Longrightarrow> heard (fst (call_onSyncError e s))"
  by (simp add: call_onSyncError_def heard_settle split: option.splits)

lemma heard_start: "heard s \<Longrightarrow> heard (snd (start s))"
  by (auto simp: heard_def start_def Let_def emit_def log_def sync_def nth_append
      split: option.splits)

lemma heard_stop: "heard s \<Longrightarrow> heard (snd (stop s))"
  by (simp add: stop_def Let_def)

lemma heard_stop_delayed: "heard s \<Longrightarrow> heard (stop_delayed pid s)"
  by (simp add: stop_delayed_def Let_def)

lemma heard_then_start_on: "heard s \<Longrightarrow> heard (then_start_on pid s)"
  by (simp add: then_start_on_def split: pstate.splits)

lemma heard_session_settled: "heard s \<Longrightarrow> heard (session_settled sid s)"
  by (auto simp: heard_def session_settled_def finally_settled_def emit_error_def
      Let_def clearState_def emit_def log_def nth_list_update split: pstate.splits)

lemma heard_pop_settled:
  "heard s \<Longrightarrow> jobs s = SessionSettled sid # js
   \<Longrightarrow> heard (session_settled sid (s\<lparr>jobs := js\<rparr>))"
  by (simp add: heard_session_settled)

lemma heard_drop_other:
  "heard s \<Longrightarrow> jobs s = j # js \<Longrightarrow> (\<forall>sid. j \<noteq> SessionSettled sid)
   \<Longrightarrow> heard (s\<lparr>jobs := js\<rparr>)"
  by simp

lemma heard_listeners: "heard s \<Longrightarrow> 0 < n \<Longrightarrow> heard (s\<lparr>errorListeners := n\<rparr>)"
  by (simp add: heard_def)

lemma heard_skip_listener: "heard s \<Longrightarrow> heard (fst (skip_listener s))"
  by (simp add: skip_listener_def heard_call_onSyncDone)

lemma heard_run_listeners: "heard s \<Longrightarrow> heard (run_listeners n s)"
proof (induction n arbitrary: s)
  case 0
  then show ?case by simp
next
  case (Suc n)
  from Suc.prems have "heard (fst (skip_listener s))"
    by (rule heard_skip_listener)
  then show ?case
    by (cases "skip_listener s") (auto split: option.splits intro: Suc.IH)
qed

lemma heard_skip: "heard s \<Longrightarrow> heard (skip s)"
  by (simp add: skip_def heard_run_listeners)

lemma heard_on_rpc_error: "heard s \<Longrightarrow> heard (on_rpc_error e s)"
proof -
  assume "heard s"
  then have "heard (fst (call_onSyncError e (log (ErrorNodeCrashed e) s)))"
    by (simp add: heard_call_onSyncError)
  then show ?thesis
    by (cases "call_onSyncError e (log (ErrorNodeCrashed e) s)")
       (auto simp: on_rpc_error_def split: option.splits)
qed

lemma heard_finish_chain: "heard (fst r) \<Longrightarrow> heard (finish_chain r)"
  by (cases r) (auto simp: finish_chain_def heard_on_rpc_error split: option.splits)

lemma heard_on_syncing_result:
  "heard s \<Longrightarrow> heard (fst (on_syncing_result r s))"
  by (cases r) (simp_all add: on_syncing_result_def Let_def heard_call_onSyncDone)

lemma heard_on_block_result:
  "heard s \<Longrightarrow> heard (fst (on_block_result r b s))"
  by (cases b) (simp_all add: on_block_result_def Let_def heard_call_onSyncDone)

lemma heard_syncing_reply: "heard s \<Longrightarrow> heard (syncing_reply r s)"
  by (cases r) (simp_all add: syncing_reply_def heard_on_rpc_error
      heard_finish_chain heard_on_syncing_result)

lemma heard_block_reply: "heard s \<Longrightarrow> heard (block_reply p r s)"
  by (cases r) (simp_all add: block_reply_def heard_on_rpc_error
      heard_finish_chain heard_on_block_result)

lemma heard_tick: "heard s \<Longrightarrow> heard (tick s)"
  by (simp add: tick_def Let_def)

lemma heard_fire: "heard s \<Longrightarrow> heard (fire i s)"
  by (auto simp: fire_def Let_def heard_tick split: timer.splits intro: heard_jobs')

lemma heard_onNodeStateChanged:
  "heard s \<Longrightarrow> heard (onNodeStateChanged st s)"
proof (cases st)
  case NodeConnected
  assume "heard s"
  then have "heard (snd (stop (log InfoNodeConnected s)))"
    by (simp add: heard_stop)
  then show ?thesis using NodeConnected
    by (cases "stop (log InfoNodeConnected s)")
       (simp add: onNodeStateChanged_def heard_then_start_on)
qed (simp_all add: onNodeStateChanged_def heard_stop)

lemma heard_run_job:
  "heard s \<Longrightarrow> jobs s = j # js \<Longrightarrow> heard (run_job j (s\<lparr>jobs := js\<rparr>))"
proof (cases j)
  case (SessionSettled sid)
  assume "heard s" "jobs s = j # js"
  then show ?thesis using SessionSettled
    by (simp add: run_job_def heard_pop_settled)
next
  case (StopDelayed pid)
  assume "heard s" "jobs s = j # js"
  then have "heard (s\<lparr>jobs := js\<rparr>)"
    using StopDelayed by (auto intro: heard_drop_other)
  then show ?thesis using StopDelayed
    by (simp add: run_job_def heard_stop_delayed)
next
  case (ThenStart pid)
  assume "heard s" "jobs s = j # js"
  then have "heard (s\<lparr>jobs := js\<rparr>)"
    using ThenStart by (auto intro: heard_drop_other)
  then show ?thesis using ThenStart
    by (simp add: run_job_def heard_start)
qed

lemma heard_step: "heard s \<Longrightarrow> keeps_listener i \<Longrightarrow> heard (step i s)"
  by (cases i)
     (simp_all add: step_def heard_listeners heard_start heard_stop heard_skip
        heard_onNodeStateChanged heard_fire heard_syncing_reply
        heard_block_reply heard_run_job split: rpc.splits list.splits)

lemma heard_run: "heard s \<Longrightarrow> list_all keeps_listener is \<Longrightarrow> heard (run is s)"
  by (induction "is" arbitrary: s) (simp_all add: run_def heard_step)

lemma heard_first: "0 < n \<Longrightarrow> heard (step (ErrorListeners n) (init t c))"
  by (simp add: heard_def step_def init_def)

section \<open>A session nothing can settle\<close>

lemma orphaned_emit [simp]: "orphaned (emit e s) q = orphaned s q"
  by (simp add: orphaned_def emit_def)

lemma orphaned_log [simp]: "orphaned (log l s) q = orphaned s q"
  by (simp add: orphaned_def log_def)

lemma orphaned_sync [simp]: "orphaned (sync s) q = orphaned s q"
  by (simp add: orphaned_def sync_def)
lemma orphaned_unhandled [simp]: "orphaned (s\<lparr>unhandled := u\<rparr>) q = orphaned s q"
  by (simp add: orphaned_def)

lemma orphaned_rpcs [simp]: "orphaned (s\<lparr>rpcs := u\<rparr>) q = orphaned s q"
  by (simp add: orphaned_def)

lemma orphaned_timers [simp]: "orphaned (s\<lparr>timers := u\<rparr>) q = orphaned s q"
  by (simp add: orphaned_def)

lemma orphaned_stops [simp]: "orphaned (s\<lparr>stops := u\<rparr>) q = orphaned s q"
  by (simp add: orphaned_def)

lemma orphaned_skipListeners [simp]: "orphaned (s\<lparr>skipListeners := u\<rparr>) q = orphaned s q"
  by (simp add: orphaned_def)

lemma orphaned_errorListeners [simp]: "orphaned (s\<lparr>errorListeners := u\<rparr>) q = orphaned s q"
  by (simp add: orphaned_def)

lemma orphaned_connected [simp]: "orphaned (s\<lparr>connected := u\<rparr>) q = orphaned s q"
  by (simp add: orphaned_def)

lemma orphaned_clock [simp]: "orphaned (s\<lparr>clock := u\<rparr>) q = orphaned s q"
  by (simp add: orphaned_def)

lemma orphaned_syncInProgress [simp]: "orphaned (s\<lparr>syncInProgress := u\<rparr>) q = orphaned s q"
  by (simp add: orphaned_def)

lemma orphaned_syncPromise [simp]: "orphaned (s\<lparr>syncPromise := u\<rparr>) q = orphaned s q"
  by (simp add: orphaned_def)

lemma orphaned_clearState: "orphaned s q \<Longrightarrow> orphaned (clearState s) q"
  by (simp add: orphaned_def clearState_def)

lemma orphaned_jobs:
  "orphaned s q \<Longrightarrow> set js \<subseteq> insert (StopDelayed p) (set (jobs s))
   \<Longrightarrow> orphaned (s\<lparr>jobs := js\<rparr>) q"
  by (auto simp: orphaned_def)

lemma orphaned_settle: "orphaned s q \<Longrightarrow> sid \<noteq> q \<Longrightarrow> orphaned (settle sid v s) q"
  by (simp add: orphaned_def settle_def)

lemma orphaned_call_onSyncDone: "orphaned s q \<Longrightarrow> orphaned (fst (call_onSyncDone s)) q"
proof (cases "onSyncDone s")
  case None
  assume "orphaned s q"
  with None show ?thesis by (simp add: call_onSyncDone_def)
next
  case (Some sid)
  assume o: "orphaned s q"
  with Some have "sid \<noteq> q" by (auto simp: orphaned_def)
  with o Some show ?thesis by (simp add: call_onSyncDone_def orphaned_settle)
qed

lemma orphaned_call_onSyncError: "orphaned s q \<Longrightarrow> orphaned (fst (call_onSyncError e s)) q"
proof (cases "onSyncError s")
  case None
  assume "orphaned s q"
  with None show ?thesis by (simp add: call_onSyncError_def)
next
  case (Some sid)
  assume o: "orphaned s q"
  with Some have "sid \<noteq> q" by (auto simp: orphaned_def)
  with o Some show ?thesis by (simp add: call_onSyncError_def orphaned_settle)
qed

lemma orphaned_start: "orphaned s q \<Longrightarrow> orphaned (snd (start s)) q"
  by (auto simp: orphaned_def start_def Let_def emit_def log_def sync_def nth_append
      split: option.splits)

lemma orphaned_stop: "orphaned s q \<Longrightarrow> orphaned (snd (stop s)) q"
  by (simp add: stop_def Let_def orphaned_clearState)

lemma orphaned_stop_delayed: "orphaned s q \<Longrightarrow> orphaned (stop_delayed pid s) q"
  by (simp add: stop_delayed_def Let_def orphaned_def emit_def)

lemma orphaned_then_start_on: "orphaned s q \<Longrightarrow> orphaned (then_start_on pid s) q"
  by (simp add: then_start_on_def orphaned_def split: pstate.splits)

lemma orphaned_finally_settled:
  "orphaned s q \<Longrightarrow> sid \<noteq> q \<Longrightarrow> orphaned (finally_settled sid v s) q"
  by (simp add: orphaned_def finally_settled_def clearState_def log_def Let_def)

lemma orphaned_session_settled: "orphaned s q \<Longrightarrow> orphaned (session_settled sid s) q"
proof (cases "sid = q")
  case True
  assume "orphaned s q"
  with True show ?thesis by (simp add: orphaned_def session_settled_def)
next
  case False
  assume "orphaned s q"
  with False show ?thesis
    by (simp add: session_settled_def emit_error_def orphaned_finally_settled
        split: pstate.splits)
qed

lemma orphaned_drop:
  "orphaned s q \<Longrightarrow> jobs s = j # js \<Longrightarrow> orphaned (s\<lparr>jobs := js\<rparr>) q"
  by (simp add: orphaned_def)

lemma orphaned_pop_settled:
  "orphaned s q \<Longrightarrow> jobs s = SessionSettled sid # js
   \<Longrightarrow> orphaned (session_settled sid (s\<lparr>jobs := js\<rparr>)) q"
  by (simp add: orphaned_session_settled orphaned_drop)

lemma orphaned_drop_other:
  "orphaned s q \<Longrightarrow> jobs s = j # js \<Longrightarrow> (\<forall>sid. j \<noteq> SessionSettled sid)
   \<Longrightarrow> orphaned (s\<lparr>jobs := js\<rparr>) q"
  by (simp add: orphaned_drop)

lemma orphaned_skip_listener: "orphaned s q \<Longrightarrow> orphaned (fst (skip_listener s)) q"
  by (simp add: skip_listener_def orphaned_call_onSyncDone)

lemma orphaned_run_listeners: "orphaned s q \<Longrightarrow> orphaned (run_listeners n s) q"
proof (induction n arbitrary: s)
  case 0
  then show ?case by simp
next
  case (Suc n)
  from Suc.prems have "orphaned (fst (skip_listener s)) q"
    by (rule orphaned_skip_listener)
  then show ?case
    by (cases "skip_listener s") (auto split: option.splits intro: Suc.IH)
qed

lemma orphaned_skip: "orphaned s q \<Longrightarrow> orphaned (skip s) q"
  by (simp add: skip_def orphaned_run_listeners)

lemma orphaned_on_rpc_error: "orphaned s q \<Longrightarrow> orphaned (on_rpc_error e s) q"
proof -
  assume "orphaned s q"
  then have "orphaned (fst (call_onSyncError e (log (ErrorNodeCrashed e) s))) q"
    by (simp add: orphaned_call_onSyncError)
  then show ?thesis
    by (cases "call_onSyncError e (log (ErrorNodeCrashed e) s)")
       (auto simp: on_rpc_error_def split: option.splits)
qed

lemma orphaned_finish_chain: "orphaned (fst r) q \<Longrightarrow> orphaned (finish_chain r) q"
  by (cases r) (auto simp: finish_chain_def orphaned_on_rpc_error split: option.splits)

lemma orphaned_on_syncing_result:
  "orphaned s q \<Longrightarrow> orphaned (fst (on_syncing_result r s)) q"
  by (cases r) (simp_all add: on_syncing_result_def Let_def orphaned_call_onSyncDone)

lemma orphaned_on_block_result:
  "orphaned s q \<Longrightarrow> orphaned (fst (on_block_result r b s)) q"
  by (cases b) (simp_all add: on_block_result_def Let_def orphaned_call_onSyncDone)

lemma orphaned_syncing_reply: "orphaned s q \<Longrightarrow> orphaned (syncing_reply r s) q"
  by (cases r) (simp_all add: syncing_reply_def orphaned_on_rpc_error
      orphaned_finish_chain orphaned_on_syncing_result)

lemma orphaned_block_reply: "orphaned s q \<Longrightarrow> orphaned (block_reply p r s) q"
  by (cases r) (simp_all add: block_reply_def orphaned_on_rpc_error
      orphaned_finish_chain orphaned_on_block_result)

lemma orphaned_tick: "orphaned s q \<Longrightarrow> orphaned (tick s) q"
  by (simp add: tick_def Let_def)

lemma orphaned_fire: "orphaned s q \<Longrightarrow> orphaned (fire i s) q"
  by (auto simp: fire_def Let_def orphaned_tick split: timer.splits intro: orphaned_jobs)

lemma orphaned_onNodeStateChanged:
  "orphaned s q \<Longrightarrow> orphaned (onNodeStateChanged st s) q"
proof (cases st)
  case NodeConnected
  assume "orphaned s q"
  then have "orphaned (snd (stop (log InfoNodeConnected s))) q"
    by (simp add: orphaned_stop)
  then show ?thesis using NodeConnected
    by (cases "stop (log InfoNodeConnected s)")
       (simp add: onNodeStateChanged_def orphaned_then_start_on)
qed (simp_all add: onNodeStateChanged_def orphaned_stop)

lemma orphaned_run_job:
  "orphaned s q \<Longrightarrow> jobs s = j # js \<Longrightarrow> orphaned (run_job j (s\<lparr>jobs := js\<rparr>)) q"
proof (cases j)
  case (SessionSettled sid)
  assume "orphaned s q" "jobs s = j # js"
  then show ?thesis using SessionSettled
    by (simp add: run_job_def orphaned_pop_settled)
next
  case (StopDelayed pid)
  assume "orphaned s q" "jobs s = j # js"
  then have "orphaned (s\<lparr>jobs := js\<rparr>) q"
    using StopDelayed by (auto intro: orphaned_drop_other)
  then show ?thesis using StopDelayed
    by (simp add: run_job_def orphaned_stop_delayed)
next
  case (ThenStart pid)
  assume "orphaned s q" "jobs s = j # js"
  then have "orphaned (s\<lparr>jobs := js\<rparr>) q"
    using ThenStart by (auto intro: orphaned_drop_other)
  then show ?thesis using ThenStart
    by (simp add: run_job_def orphaned_start)
qed

lemma orphaned_step: "orphaned s q \<Longrightarrow> orphaned (step i s) q"
  by (cases i)
     (simp_all add: step_def orphaned_start orphaned_stop orphaned_skip
        orphaned_onNodeStateChanged orphaned_fire orphaned_syncing_reply
        orphaned_block_reply orphaned_run_job split: rpc.splits list.splits)

lemma orphaned_run: "orphaned s q \<Longrightarrow> orphaned (run is s) q"
  by (induction "is" arbitrary: s) (simp_all add: run_def orphaned_step)

section \<open>What stop leaves pending\<close>

lemma stop_view_emit:
  "stop_view (emit e s) = (if e = Stopped
     then (case stop_view s of (sps, ts, js, ne, nl) \<Rightarrow> (sps, ts, js, Suc ne, nl))
     else stop_view s)"
  by (simp add: stop_view_def emit_def)

lemma stop_view_log:
  "stop_view (log l s) = (if l = InfoStoppingLoop
     then (case stop_view s of (sps, ts, js, ne, nl) \<Rightarrow> (sps, ts, js, ne, Suc nl))
     else stop_view s)"
  by (simp add: stop_view_def log_def)

lemma stop_view_sync [simp]: "stop_view (sync s) = stop_view s"
  by (simp add: stop_view_def sync_def)

lemma stop_view_clearState [simp]: "stop_view (clearState s) = stop_view s"
  by (simp add: stop_view_def clearState_def)

lemma stop_view_settle [simp]: "stop_view (settle sid v s) = stop_view s"
  by (simp add: stop_view_def settle_def)

lemma stop_view_fields [simp]:
  "stop_view (s\<lparr>unhandled := u\<rparr>) = stop_view s"
  "stop_view (s\<lparr>rpcs := r\<rparr>) = stop_view s"
  "stop_view (s\<lparr>sessions := ss\<rparr>) = stop_view s"
  "stop_view (s\<lparr>skipListeners := n\<rparr>) = stop_view s"
  "stop_view (s\<lparr>connected := c\<rparr>) = stop_view s"
  "stop_view (s\<lparr>errorListeners := n\<rparr>) = stop_view s"
  "stop_view (s\<lparr>clock := t\<rparr>) = stop_view s"
  "stop_view (s\<lparr>syncPromise := sp\<rparr>) = stop_view s"
  "stop_view (s\<lparr>syncInProgress := b\<rparr>) = stop_view s"
  "stop_view (s\<lparr>onSyncDone := d\<rparr>) = stop_view s"
  "stop_view (s\<lparr>onSyncError := d\<rparr>) = stop_view s"
  by (simp_all add: stop_view_def)

lemma stop_view_call_onSyncDone [simp]: "stop_view (fst (call_onSyncDone s)) = stop_view s"
  by (simp add: call_onSyncDone_def split: option.splits)

lemma stop_view_call_onSyncError [simp]: "stop_view (fst (call_onSyncError e s)) = stop_view s"
  by (simp add: call_onSyncError_def split: option.splits)

lemma stop_view_start [simp]: "stop_view (snd (start s)) = stop_view s"
  by (simp add: start_def Let_def stop_view_log stop_view_emit split: option.splits)
     (simp add: stop_view_def)

lemma stop_view_skip_listener [simp]: "stop_view (fst (skip_listener s)) = stop_view s"
  by (simp add: skip_listener_def stop_view_log)

lemma stop_view_run_listeners [simp]: "stop_view (run_listeners n s) = stop_view s"
proof (induction n arbitrary: s)
  case 0
  show ?case by simp
next
  case (Suc n)
  have "stop_view (fst (skip_listener s)) = stop_view s" by simp
  then show ?case
    by (cases "skip_listener s") (auto simp: Suc.IH split: option.splits)
qed

lemma stop_view_skip [simp]: "stop_view (skip s) = stop_view s"
  by (simp add: skip_def)

lemma stop_view_on_rpc_error [simp]: "stop_view (on_rpc_error e s) = stop_view s"
proof -
  have "stop_view (fst (call_onSyncError e (log (ErrorNodeCrashed e) s))) = stop_view s"
    by (simp add: stop_view_log)
  then show ?thesis
    by (cases "call_onSyncError e (log (ErrorNodeCrashed e) s)")
       (auto simp: on_rpc_error_def split: option.splits)
qed

lemma stop_view_finish_chain [simp]: "stop_view (finish_chain r) = stop_view (fst r)"
  by (cases r) (auto simp: finish_chain_def split: option.splits)

lemma stop_view_on_syncing_result [simp]: "stop_view (fst (on_syncing_result r s)) = stop_view s"
  by (cases r) (simp_all add: on_syncing_result_def Let_def stop_view_log stop_view_emit)

lemma stop_view_on_block_result [simp]: "stop_view (fst (on_block_result r b s)) = stop_view s"
  by (cases b) (simp_all add: on_block_result_def Let_def stop_view_log stop_view_emit)

lemma stop_view_syncing_reply [simp]: "stop_view (syncing_reply r s) = stop_view s"
  by (cases r) (simp_all add: syncing_reply_def)

lemma stop_view_block_reply [simp]: "stop_view (block_reply p r s) = stop_view s"
  by (cases r) (simp_all add: block_reply_def)

lemma stop_view_tick [simp]: "stop_view (tick s) = stop_view s"
  by (simp add: tick_def Let_def stop_view_log)

lemma stop_view_session_settled [simp]: "stop_view (session_settled sid s) = stop_view s"
  by (simp add: session_settled_def finally_settled_def emit_error_def Let_def stop_view_log
      stop_view_emit split: pstate.splits)

lemma stop_timer_iff: "stop_timer x \<longleftrightarrow> (\<exists>p. snd x = StopDelay p)"
  by (cases x rule: stop_timer.cases) simp_all

lemma pend_view [simp]: "pend (filter stop_timer ts) (filter stop_job js) p = pend ts js p"
proof -
  have "(\<lambda>x. stop_timer x \<and> snd x = StopDelay p) = (\<lambda>x. snd x = StopDelay p)"
    by (auto simp: stop_timer_iff)
  moreover have "(\<lambda>j. stop_job j \<and> j = StopDelayed p) = (\<lambda>j. j = StopDelayed p)"
    by auto
  ultimately show ?thesis by (simp add: pend_def)
qed

lemma stop_job_delayed [simp]: "(stop_job j \<and> delayed_job j) = delayed_job j"
  by (cases j) simp_all

lemma graceful_iff:
  "graceful s \<longleftrightarrow>
     (\<forall>p. pend (timers s) (jobs s) p = owed (stops s) p)
   \<and> (\<forall>p. ThenStart p \<in> set (jobs s) \<longrightarrow> p < length (stops s) \<and> settled (stops s ! p) = Fulfilled)
   \<and> length (filter (\<lambda>e. e = Stopped) (events s)) + length (filter stop_timer (timers s))
       + length (filter delayed_job (jobs s))
     = length (filter (\<lambda>l. l = InfoStoppingLoop) (logs s))"
  by (simp add: graceful_def grace_ok_def stop_view_def)

lemma graceful_init: "graceful (init t c)"
  by (simp add: graceful_iff init_def pend_def owed_def)

lemma graceful_quiet: "stop_view s' = stop_view s \<Longrightarrow> graceful s \<Longrightarrow> graceful s'"
  by (simp add: graceful_def)

lemma owed_beyond: "length sps \<le> p \<Longrightarrow> owed sps p = 0"
  by (simp add: owed_def)

lemma owed_append:
  "owed (sps @ [x]) p = (if p = length sps then (if settled x = Pending then 1 else 0) else owed sps p)"
  by (auto simp: owed_def nth_append)

lemma pend_new_timer:
  "pend (ts @ [(d, StopDelay q)]) js p = pend ts js p + (if p = q then 1 else 0)"
  by (simp add: pend_def)

lemma graceful_stop:
  assumes "graceful s"
  shows "graceful (snd (stop s))"
proof (cases "syncInProgress s")
  case False
  have "pend (timers s) (jobs s) p = owed (stops s @ [\<lparr>settled = Fulfilled, then_start = 0\<rparr>]) p"
    for p
    using assms by (simp add: graceful_iff owed_append owed_beyond)
  moreover have "p < length (stops s @ [\<lparr>settled = Fulfilled, then_start = 0\<rparr>])
      \<and> settled ((stops s @ [\<lparr>settled = Fulfilled, then_start = 0\<rparr>]) ! p) = Fulfilled"
    if "ThenStart p \<in> set (jobs s)" for p
    using assms that by (auto simp: graceful_iff nth_append)
  ultimately show ?thesis
    using assms False by (simp add: graceful_iff stop_def Let_def log_def)
next
  case True
  let ?q = "length (stops s)"
  have "pend (timers s @ [(clock s + SYNC_CHECK_INTERVAL_MS, StopDelay ?q)]) (jobs s) p
      = owed (stops s @ [\<lparr>settled = Pending, then_start = 0\<rparr>]) p" for p
    using assms by (simp add: graceful_iff owed_append owed_beyond pend_new_timer)
  moreover have "p < length (stops s @ [\<lparr>settled = Pending, then_start = 0\<rparr>])
      \<and> settled ((stops s @ [\<lparr>settled = Pending, then_start = 0\<rparr>]) ! p) = Fulfilled"
    if "ThenStart p \<in> set (jobs s)" for p
    using assms that by (auto simp: graceful_iff nth_append)
  ultimately show ?thesis
    using assms True by (simp add: graceful_iff stop_def Let_def log_def clearState_def)
qed

lemma filter_remove_nth:
  "i < length xs \<Longrightarrow>
     length (filter P (remove_nth i xs)) + (if P (xs ! i) then 1 else 0) = length (filter P xs)"
proof -
  assume i: "i < length xs"
  then have "xs = take i xs @ xs ! i # drop (Suc i) xs"
    by (simp add: id_take_nth_drop)
  then have "length (filter P xs) = length (filter P (take i xs @ xs ! i # drop (Suc i) xs))"
    by simp
  then show ?thesis by (simp add: remove_nth_def)
qed

lemma graceful_drop_tick:
  assumes "graceful s" and "i < length (timers s)" and "snd (timers s ! i) = SyncTick"
  shows "graceful (s\<lparr>timers := remove_nth i (timers s)\<rparr>)"
proof -
  have "\<not> stop_timer (timers s ! i)"
    using assms(3) by (simp add: stop_timer_iff)
  with assms(2) have "filter stop_timer (remove_nth i (timers s)) = filter stop_timer (timers s)"
    by (simp add: remove_nth_def) (metis append_take_drop_id filter.simps(2) filter_append id_take_nth_drop)
  then have "stop_view (s\<lparr>timers := remove_nth i (timers s)\<rparr>) = stop_view s"
    by (simp add: stop_view_def)
  from this assms(1) show ?thesis by (rule graceful_quiet)
qed

lemma graceful_move_delay:
  assumes "graceful s" and "i < length (timers s)" and "snd (timers s ! i) = StopDelay q"
  shows "graceful (s\<lparr>timers := remove_nth i (timers s), jobs := jobs s @ [StopDelayed q]\<rparr>)"
proof -
  have t: "length (filter stop_timer (remove_nth i (timers s))) + 1
      = length (filter stop_timer (timers s))"
    using filter_remove_nth [OF assms(2), of stop_timer] assms(3) by (simp add: stop_timer_iff)
  have "pend (remove_nth i (timers s)) (jobs s @ [StopDelayed q]) p = pend (timers s) (jobs s) p"
    for p
    using filter_remove_nth [OF assms(2), of "\<lambda>x. snd x = StopDelay p"] assms(3)
    by (auto simp: pend_def split: if_splits)
  then show ?thesis
    using assms(1) t by (simp add: graceful_iff)
qed

lemma graceful_tick: "graceful s \<Longrightarrow> graceful (tick s)"
  by (rule graceful_quiet [of _ s]) simp_all

lemma graceful_fire: "graceful s \<Longrightarrow> graceful (fire i s)"
proof (cases "i < length (timers s) \<and> fst (timers s ! i) \<le> clock s")
  case False
  assume "graceful s"
  with False show ?thesis by (auto simp: fire_def)
next
  case True
  assume g: "graceful s"
  show ?thesis
  proof (cases "snd (timers s ! i)")
    case SyncTick
    with g True have "graceful (s\<lparr>timers := remove_nth i (timers s)\<rparr>)"
      by (simp add: graceful_drop_tick)
    then have "graceful (tick (s\<lparr>timers := remove_nth i (timers s)\<rparr>))"
      by (rule graceful_tick)
    with True SyncTick show ?thesis by (simp add: fire_def)
  next
    case (StopDelay q)
    with g True
    have "graceful (s\<lparr>timers := remove_nth i (timers s), jobs := jobs s @ [StopDelayed q]\<rparr>)"
      by (simp add: graceful_move_delay)
    with True StopDelay show ?thesis by (simp add: fire_def)
  qed
qed

lemma owed_then_start:
  "owed (sps[q := (sps ! q)\<lparr>then_start := n\<rparr>]) p = owed sps p"
  by (cases "p = q") (auto simp: owed_def)

lemma graceful_then_start_on: "graceful s \<Longrightarrow> graceful (then_start_on pid s)"
proof (cases "pid < length (stops s)")
  case False
  assume "graceful s"
  with False show ?thesis by (simp add: then_start_on_def)
next
  case True
  assume g: "graceful s"
  show ?thesis
  proof (cases "settled (stops s ! pid)")
    case Pending
    have "settled ((stops s)[pid := (stops s ! pid)\<lparr>then_start := n\<rparr>] ! p) = settled (stops s ! p)"
      if "p < length (stops s)" for p n
      using that by (cases "p = pid") simp_all
    with g True Pending show ?thesis
      by (simp add: then_start_on_def graceful_iff owed_then_start)
  next
    case Fulfilled
    have "pend (timers s) (jobs s @ [ThenStart pid]) p = pend (timers s) (jobs s) p" for p
      by (simp add: pend_def)
    with g True Fulfilled show ?thesis
      by (auto simp: then_start_on_def graceful_iff)
  next
    case (Rejected e)
    with g True show ?thesis by (simp add: then_start_on_def)
  qed
qed

lemma graceful_onNodeStateChanged: "graceful s \<Longrightarrow> graceful (onNodeStateChanged st s)"
proof (cases st)
  case NodeConnected
  assume "graceful s"
  then have "graceful (log InfoNodeConnected s)"
    by (rule graceful_quiet [rotated]) (simp add: stop_view_log)
  then have "graceful (snd (stop (log InfoNodeConnected s)))"
    by (rule graceful_stop)
  then show ?thesis using NodeConnected
    by (cases "stop (log InfoNodeConnected s)")
       (simp add: onNodeStateChanged_def graceful_then_start_on)
next
  case NodeStopping
  assume "graceful s"
  then have "graceful (log InfoNodeStopping s)"
    by (rule graceful_quiet [rotated]) (simp add: stop_view_log)
  then have "graceful (snd (stop (log InfoNodeStopping s)))"
    by (rule graceful_stop)
  then show ?thesis using NodeStopping by (simp add: onNodeStateChanged_def)
qed (simp_all add: onNodeStateChanged_def)

lemma graceful_pop_settled:
  assumes "graceful s" and "jobs s = SessionSettled sid # js"
  shows "graceful (s\<lparr>jobs := js\<rparr>)"
proof -
  have "stop_view (s\<lparr>jobs := js\<rparr>) = stop_view s"
    using assms(2) by (simp add: stop_view_def)
  from this assms(1) show ?thesis by (rule graceful_quiet)
qed

lemma graceful_pop_then_start:
  assumes "graceful s" and "jobs s = ThenStart q # js"
  shows "graceful (s\<lparr>jobs := js\<rparr>)"
proof -
  have "pend (timers s) js p = pend (timers s) (jobs s) p" for p
    using assms(2) by (simp add: pend_def)
  then show ?thesis
    using assms by (simp add: graceful_iff)
qed

lemma owed_fulfil:
  "owed (sps[q := (sps ! q)\<lparr>settled := Fulfilled\<rparr>]) p = (if p = q then 0 else owed sps p)"
  by (cases "p = q") (auto simp: owed_def)

lemma pend_then_starts [simp]: "pend ts (js @ replicate n (ThenStart q)) p = pend ts js p"
  by (simp add: pend_def)

lemma delayed_then_starts [simp]:
  "filter delayed_job (js @ replicate n (ThenStart q)) = filter delayed_job js"
  by simp

lemma graceful_pop_delayed:
  assumes "graceful s" and "jobs s = StopDelayed q # js"
  shows "graceful (stop_delayed q (s\<lparr>jobs := js\<rparr>))"
proof -
  have all: "\<And>p. pend (timers s) (jobs s) p = owed (stops s) p"
    using assms(1) by (simp add: graceful_iff)
  have "pend (timers s) (jobs s) q = Suc (pend (timers s) js q)"
    using assms(2) by (simp add: pend_def)
  with all [of q] have o: "owed (stops s) q = 1" and z: "pend (timers s) js q = 0"
    by (simp_all add: owed_def split: if_splits)
  from o have q: "q < length (stops s)" and pq: "settled (stops s ! q) = Pending"
    by (simp_all add: owed_def split: if_splits)
  let ?sps = "(stops s)[q := (stops s ! q)\<lparr>settled := Fulfilled\<rparr>]"
  let ?js = "js @ replicate (then_start (stops s ! q)) (ThenStart q)"
  have other: "pend (timers s) js p = pend (timers s) (jobs s) p" if "p \<noteq> q" for p
    using assms(2) that by (simp add: pend_def)
  have one: "pend (timers s) ?js p = owed ?sps p" for p
    using all [of p] z other [of p] by (cases "p = q") (simp_all add: owed_fulfil)
  have two: "p < length ?sps \<and> settled (?sps ! p) = Fulfilled" if "ThenStart p \<in> set ?js" for p
  proof (cases "p = q")
    case True
    with q show ?thesis by simp
  next
    case False
    with that have "ThenStart p \<in> set (jobs s)"
      using assms(2) by auto
    with assms(1) have "p < length (stops s) \<and> settled (stops s ! p) = Fulfilled"
      by (simp add: graceful_iff)
    with False show ?thesis by simp
  qed
  have three: "Suc (length (filter (\<lambda>e. e = Stopped) (events s)))
        + length (filter stop_timer (timers s)) + length (filter delayed_job ?js)
      = length (filter (\<lambda>l. l = InfoStoppingLoop) (logs s))"
    using assms by (simp add: graceful_iff)
  from one two three q show ?thesis
    by (simp add: graceful_iff stop_delayed_def Let_def emit_def)
qed

lemma graceful_start: "graceful s \<Longrightarrow> graceful (snd (start s))"
  by (rule graceful_quiet [of _ s]) simp_all

lemma graceful_session_settled: "graceful s \<Longrightarrow> graceful (session_settled sid s)"
  by (rule graceful_quiet [of _ s]) simp_all

lemma graceful_run_job:
  "graceful s \<Longrightarrow> jobs s = j # js \<Longrightarrow> graceful (run_job j (s\<lparr>jobs := js\<rparr>))"
  by (cases j)
     (simp_all add: run_job_def graceful_pop_delayed graceful_start graceful_session_settled
        graceful_pop_settled graceful_pop_then_start)

lemma graceful_step: "graceful s \<Longrightarrow> graceful (step i s)"
proof (cases i)
  case RunJob
  assume "graceful s"
  then show ?thesis using RunJob
    by (cases "jobs s") (simp_all add: step_def graceful_run_job)
next
  case (SyncingReply k r)
  assume "graceful s"
  then show ?thesis using SyncingReply
    by (auto simp: step_def split: rpc.splits intro: graceful_quiet [of _ s])
next
  case (BlockReply k r)
  assume "graceful s"
  then show ?thesis using BlockReply
    by (auto simp: step_def split: rpc.splits intro: graceful_quiet [of _ s])
next
  case CallStart
  assume "graceful s"
  then show ?thesis using CallStart by (simp add: step_def graceful_start)
next
  case CallStop
  assume "graceful s"
  then show ?thesis using CallStop by (simp add: step_def graceful_stop)
next
  case SkipSync
  assume "graceful s"
  then show ?thesis using SkipSync
    by (auto simp: step_def intro: graceful_quiet [of _ s])
next
  case (NodeState st)
  assume "graceful s"
  then show ?thesis using NodeState by (simp add: step_def graceful_onNodeStateChanged)
next
  case (SetConnected c)
  assume "graceful s"
  then show ?thesis using SetConnected
    by (auto simp: step_def intro: graceful_quiet [of _ s])
next
  case (ErrorListeners n)
  assume "graceful s"
  then show ?thesis using ErrorListeners
    by (auto simp: step_def intro: graceful_quiet [of _ s])
next
  case (Advance d)
  assume "graceful s"
  then show ?thesis using Advance
    by (auto simp: step_def intro: graceful_quiet [of _ s])
next
  case (Fire k)
  assume "graceful s"
  then show ?thesis using Fire by (simp add: step_def graceful_fire)
qed

lemma graceful_run: "graceful s \<Longrightarrow> graceful (run is s)"
  by (induction "is" arbitrary: s) (simp_all add: run_def graceful_step)

lemma run_append: "run (xs @ ys) s = run ys (run xs s)"
  by (simp add: run_def)

lemma graceful_reachable: "graceful (run is (init t c))"
  by (simp add: graceful_run graceful_init)

lemma pend_timer_member:
  "(d, StopDelay p) \<in> set ts \<Longrightarrow> 0 < pend ts js p"
proof -
  assume "(d, StopDelay p) \<in> set ts"
  then have "(d, StopDelay p) \<in> set (filter (\<lambda>x. snd x = StopDelay p) ts)" by simp
  then have "filter (\<lambda>x. snd x = StopDelay p) ts \<noteq> []" by fastforce
  then show ?thesis by (simp add: pend_def)
qed

lemma stop_idle:
  "\<not> syncInProgress s \<Longrightarrow>
     stop s = (length (stops s),
               s\<lparr>logs := logs s @ [DebugNotInProgress],
                 stops := stops s @ [\<lparr>settled = Fulfilled, then_start = 0\<rparr>]\<rparr>)"
  by (simp add: stop_def log_def)

lemma stop_active:
  "syncInProgress s \<Longrightarrow>
     stop s = (length (stops s),
               s\<lparr>logs := logs s @ [InfoStoppingLoop], skipListeners := 0,
                 syncInProgress := False, syncPromise := None, onSyncDone := None,
                 onSyncError := None,
                 timers := timers s @ [(clock s + SYNC_CHECK_INTERVAL_MS, StopDelay (length (stops s)))],
                 stops := stops s @ [\<lparr>settled = Pending, then_start = 0\<rparr>]\<rparr>)"
  by (simp add: stop_def log_def clearState_def Let_def)

lemma stopped_after_grace:
  assumes "syncInProgress s" and "jobs s = []" and "SYNC_CHECK_INTERVAL_MS \<le> d"
  shows "events (run [CallStop, Advance d, Fire (length (timers s)), RunJob] s) = events s @ [Stopped]"
    and "settled (stops (run [CallStop, Advance d, Fire (length (timers s)), RunJob] s) ! length (stops s))
          = Fulfilled"
    and "length (stops (run [CallStop, Advance d, Fire (length (timers s)), RunJob] s))
          = Suc (length (stops s))"
  using assms
  by (simp_all add: run_def step_def stop_active fire_def remove_nth_def run_job_def
      stop_delayed_def emit_def Let_def nth_append)

lemma not_before_grace:
  assumes "syncInProgress s" and "d < SYNC_CHECK_INTERVAL_MS"
  shows "run [CallStop, Advance d, Fire (length (timers s))] s = run [CallStop, Advance d] s"
  using assms
  by (simp add: run_def step_def stop_active fire_def nth_append)

section \<open>The lifecycle handler\<close>

lemma connected_active:
  "syncInProgress s \<Longrightarrow>
     onNodeStateChanged NodeConnected s
     = s\<lparr>logs := logs s @ [InfoNodeConnected, InfoStoppingLoop], skipListeners := 0,
         syncInProgress := False, syncPromise := None, onSyncDone := None, onSyncError := None,
         timers := timers s @ [(clock s + SYNC_CHECK_INTERVAL_MS, StopDelay (length (stops s)))],
         stops := stops s @ [\<lparr>settled = Pending, then_start = 1\<rparr>]\<rparr>"
  by (simp add: onNodeStateChanged_def stop_def log_def clearState_def Let_def then_start_on_def)

lemma connected_idle:
  "\<not> syncInProgress s \<Longrightarrow>
     onNodeStateChanged NodeConnected s
     = s\<lparr>logs := logs s @ [InfoNodeConnected, DebugNotInProgress],
         stops := stops s @ [\<lparr>settled = Fulfilled, then_start = 0\<rparr>],
         jobs := jobs s @ [ThenStart (length (stops s))]\<rparr>"
  by (simp add: onNodeStateChanged_def stop_def log_def Let_def then_start_on_def)

lemma stopping_active:
  "syncInProgress s \<Longrightarrow>
     onNodeStateChanged NodeStopping s
     = s\<lparr>logs := logs s @ [InfoNodeStopping, InfoStoppingLoop], skipListeners := 0,
         syncInProgress := False, syncPromise := None, onSyncDone := None, onSyncError := None,
         timers := timers s @ [(clock s + SYNC_CHECK_INTERVAL_MS, StopDelay (length (stops s)))],
         stops := stops s @ [\<lparr>settled = Pending, then_start = 0\<rparr>]\<rparr>"
  by (simp add: onNodeStateChanged_def stop_def log_def clearState_def Let_def)

lemma stopping_idle:
  "\<not> syncInProgress s \<Longrightarrow>
     onNodeStateChanged NodeStopping s
     = s\<lparr>logs := logs s @ [InfoNodeStopping, DebugNotInProgress],
         stops := stops s @ [\<lparr>settled = Fulfilled, then_start = 0\<rparr>]\<rparr>"
  by (simp add: onNodeStateChanged_def stop_def log_def Let_def)

lemma restart_after_grace:
  assumes "syncInProgress s" and "jobs s = []" and "connected s"
    and "SYNC_CHECK_INTERVAL_MS \<le> d"
  shows "events (run [NodeState NodeConnected, Advance d, Fire (length (timers s)), RunJob, RunJob] s)
           = events s @ [Stopped, Starting]"
    and "sessions (run [NodeState NodeConnected, Advance d, Fire (length (timers s)), RunJob, RunJob] s)
           = sessions s @ [\<lparr>inner = Pending, outer = Pending\<rparr>]"
  using assms
  by (simp_all add: run_def step_def connected_active fire_def remove_nth_def run_job_def
      stop_delayed_def start_def emit_def log_def sync_def Let_def nth_append)

lemma no_restart_before_grace:
  assumes "syncInProgress s" and "jobs s = []" and "d < SYNC_CHECK_INTERVAL_MS"
  shows "run [NodeState NodeConnected, Advance d, Fire (length (timers s)), RunJob, RunJob] s
           = run [NodeState NodeConnected, Advance d] s"
  using assms
  by (simp add: run_def step_def connected_active fire_def nth_append)

lemma fire_not_due: "k < length (timers s) \<Longrightarrow> clock s < fst (timers s ! k) \<Longrightarrow> fire k s = s"
  by (simp add: fire_def)

lemma pending_while_timer:
  assumes "graceful s" and "(d, StopDelay p) \<in> set (timers s)"
  shows "p < length (stops s) \<and> settled (stops s ! p) = Pending \<and> ThenStart p \<notin> set (jobs s)"
proof -
  have "0 < pend (timers s) (jobs s) p"
    using assms(2) by (rule pend_timer_member)
  moreover have "pend (timers s) (jobs s) p = owed (stops s) p"
    using assms(1) by (simp add: graceful_iff)
  ultimately have p: "p < length (stops s) \<and> settled (stops s ! p) = Pending"
    by (simp add: owed_def split: if_splits)
  moreover have "ThenStart p \<notin> set (jobs s)"
  proof
    assume "ThenStart p \<in> set (jobs s)"
    with assms(1) have "settled (stops s ! p) = Fulfilled" by (simp add: graceful_iff)
    with p show False by simp
  qed
  ultimately show ?thesis by simp
qed

section \<open>The reactions of start\<close>

lemma settled_fulfilled:
  assumes "sid < length (sessions s)" and "inner (sessions s ! sid) = Fulfilled"
  shows "session_settled sid s
     = s\<lparr>events := events s @ [Finished], logs := logs s @ [InfoLoopEnded],
         skipListeners := 0, syncInProgress := False, syncPromise := None, onSyncDone := None,
         onSyncError := None,
         sessions := (sessions s)[sid := (sessions s ! sid)\<lparr>outer := Fulfilled\<rparr>]\<rparr>"
  using assms
  by (simp add: session_settled_def finally_settled_def clearState_def log_def emit_def)

lemma settled_heard:
  assumes "sid < length (sessions s)" and "inner (sessions s ! sid) = Rejected err"
    and "0 < errorListeners s"
  shows "session_settled sid s
     = s\<lparr>events := events s @ [ErrorEvent err], logs := logs s @ [ErrorSync err, InfoLoopEnded],
         skipListeners := 0, syncInProgress := False, syncPromise := None, onSyncDone := None,
         onSyncError := None,
         sessions := (sessions s)[sid := (sessions s ! sid)\<lparr>outer := Fulfilled\<rparr>]\<rparr>"
  using assms
  by (simp add: session_settled_def finally_settled_def emit_error_def clearState_def log_def
      emit_def)

lemma settled_unheard:
  assumes "sid < length (sessions s)" and "inner (sessions s ! sid) = Rejected err"
    and "errorListeners s = 0"
  shows "session_settled sid s
     = s\<lparr>logs := logs s @ [ErrorSync err, InfoLoopEnded],
         skipListeners := 0, syncInProgress := False, syncPromise := None, onSyncDone := None,
         onSyncError := None,
         sessions := (sessions s)[sid := (sessions s ! sid)\<lparr>outer := Rejected err\<rparr>]\<rparr>"
  using assms
  by (simp add: session_settled_def finally_settled_def emit_error_def clearState_def log_def)

lemma start_not_connected_eq:
  assumes "\<not> connected s" and "syncPromise s = None"
  shows "start s = (length (sessions s),
           s\<lparr>sessions := sessions s @ [\<lparr>inner = Rejected NotConnected, outer = Pending\<rparr>],
             jobs := jobs s @ [SessionSettled (length (sessions s))],
             syncPromise := Some (length (sessions s))\<rparr>)"
  using assms by (simp add: start_def Let_def)

lemma stop_orphans:
  assumes "syncInProgress s" and "sid < length (sessions s)"
    and "inner (sessions s ! sid) = Pending" and "outer (sessions s ! sid) = Pending"
    and "SessionSettled sid \<notin> set (jobs s)"
  shows "orphaned (snd (stop s)) sid"
  using assms by (simp add: orphaned_def stop_active)

lemma resolved_then_fulfilled:
  assumes "onSyncDone s = Some sid" and "sid < length (sessions s)"
    and "inner (sessions s ! sid) = Pending" and "jobs s = []"
  shows "events (step RunJob (fst (call_onSyncDone s))) = events s @ [Finished]"
    and "outer (sessions (step RunJob (fst (call_onSyncDone s))) ! sid) = Fulfilled"
  using assms
  by (simp_all add: call_onSyncDone_def settle_def step_def run_job_def settled_fulfilled)

lemma rejected_then_queued:
  assumes "onSyncError s = Some sid" and "sid < length (sessions s)"
    and "inner (sessions s ! sid) = Pending"
  shows "inner (sessions (on_rpc_error err s) ! sid) = Rejected err"
    and "SessionSettled sid \<in> set (jobs (on_rpc_error err s))"
  using assms by (simp_all add: on_rpc_error_def call_onSyncError_def settle_def log_def)

lemma error_without_session:
  assumes "onSyncError s = None"
  shows "on_rpc_error err s
     = s\<lparr>logs := logs s @ [ErrorNodeCrashed err], unhandled := unhandled s @ [NotAFunction]\<rparr>"
  using assms by (simp add: on_rpc_error_def call_onSyncError_def log_def)

section \<open>Concrete runs\<close>

lemma started:
  "run [CallStart] (init 0 True)
   = \<lparr> syncPromise = Some 0, syncInProgress = True, onSyncDone = Some 0,
      onSyncError = Some 0, skipListeners = 1, errorListeners = 0, connected = True, clock = 0,
      events = [Starting], logs = [InfoStartingLoop],
      sessions = [\<lparr>inner = Pending, outer = Pending\<rparr>], stops = [],
      timers = [(2000, SyncTick)], rpcs = [], jobs = [], unhandled = [] \<rparr>"
  by (simp add: monitor_defs)

lemma polling:
  "run [CallStart, Advance 2000, Fire 0] (init 0 True)
   = \<lparr> syncPromise = Some 0, syncInProgress = True, onSyncDone = Some 0,
      onSyncError = Some 0, skipListeners = 1, errorListeners = 0, connected = True, clock = 2000,
      events = [Starting], logs = [InfoStartingLoop, TraceCheckStatus],
      sessions = [\<lparr>inner = Pending, outer = Pending\<rparr>], stops = [], timers = [],
      rpcs = [EthSyncing], jobs = [], unhandled = [] \<rparr>"
  by (simp add: monitor_defs)

lemma awaiting_block:
  "run [CallStart, Advance 2000, Fire 0, SyncingReply 0 (Response Absent)] (init 100000000 True)
   = \<lparr> syncPromise = Some 0, syncInProgress = True, onSyncDone = Some 0,
      onSyncError = Some 0, skipListeners = 1, errorListeners = 0, connected = True, clock = 100002000,
      events = [Starting],
      logs = [InfoStartingLoop, TraceCheckStatus, DebugCheckBlock],
      sessions = [\<lparr>inner = Pending, outer = Pending\<rparr>], stops = [], timers = [],
      rpcs = [GetBlock Absent], jobs = [], unhandled = [] \<rparr>"
  by (simp add: monitor_defs)

lemma refused:
  "run [CallStart] (init 0 False)
   = \<lparr> syncPromise = Some 0, syncInProgress = False, onSyncDone = None,
      onSyncError = None, skipListeners = 0, errorListeners = 0, connected = False, clock = 0,
      events = [], logs = [],
      sessions = [\<lparr>inner = Rejected NotConnected, outer = Pending\<rparr>], stops = [],
      timers = [], rpcs = [], jobs = [SessionSettled 0], unhandled = [] \<rparr>"
  by (simp add: monitor_defs)

lemma polling_heard:
  "run [ErrorListeners (Suc 0), CallStart, Advance 2000, Fire 0] (init 0 True)
   = \<lparr> syncPromise = Some 0, syncInProgress = True, onSyncDone = Some 0,
      onSyncError = Some 0, skipListeners = 1, errorListeners = Suc 0, connected = True,
      clock = 2000, events = [Starting], logs = [InfoStartingLoop, TraceCheckStatus],
      sessions = [\<lparr>inner = Pending, outer = Pending\<rparr>], stops = [], timers = [],
      rpcs = [EthSyncing], jobs = [], unhandled = [] \<rparr>"
  by (simp add: monitor_defs)

section \<open>Claims\<close>

text \<open>
  C1. For every sequence of inputs from the constructed object, at most one session is
  active; \<^verbatim>\<open>start\<close> called while the session promise exists returns that promise and
  only writes the warning (no new session, timer, call or event); and a second
  \<^verbatim>\<open>start\<close> right after any \<^verbatim>\<open>start\<close> returns the promise of the first.
\<close>

theorem start_returns_existing_session:
  assumes "s = run is (init t c)"
  shows "(\<forall>a b. active s a \<and> active s b \<longrightarrow> a = b)
       \<and> (\<forall>p. syncPromise s = Some p \<longrightarrow>
             start s = (p, s\<lparr>logs := logs s @ [WarnAlreadyInProgress]\<rparr>))
       \<and> start (snd (start s)) =
           (fst (start s), (snd (start s))\<lparr>logs := logs (snd (start s)) @ [WarnAlreadyInProgress]\<rparr>)"
proof -
  have "coherent s"
    using assms by (simp add: coherent_run coherent_init)
  then have one: "\<forall>a b. active s a \<and> active s b \<longrightarrow> a = b"
    by (blast dest: coherent_active)
  have again: "\<forall>p. syncPromise s = Some p \<longrightarrow>
      start s = (p, s\<lparr>logs := logs s @ [WarnAlreadyInProgress]\<rparr>)"
    by (simp add: start_again)
  have twice: "start (snd (start s)) =
      (fst (start s), (snd (start s))\<lparr>logs := logs (snd (start s)) @ [WarnAlreadyInProgress]\<rparr>)"
    by (rule start_again) (rule start_sets_promise)
  from one again twice show ?thesis by blast
qed

theorem start_returns_existing_session_witness:
  "syncPromise (run [CallStart] (init 0 True)) = Some 0
   \<and> active (run [CallStart] (init 0 True)) 0
   \<and> start (run [CallStart] (init 0 True)) =
       (0, (run [CallStart] (init 0 True))\<lparr>logs := [InfoStartingLoop, WarnAlreadyInProgress]\<rparr>)
   \<and> timers (snd (start (run [CallStart] (init 0 True)))) = [(2000, SyncTick)]
   \<and> length (sessions (snd (start (run [CallStart] (init 0 True))))) = 1"
proof -
  have p: "syncPromise (run [CallStart] (init 0 True)) = Some 0"
    by (simp add: monitor_defs)
  have l: "logs (run [CallStart] (init 0 True)) = [InfoStartingLoop]"
    by (simp add: monitor_defs)
  have tm: "timers (run [CallStart] (init 0 True)) = [(2000, SyncTick)]"
    by (simp add: monitor_defs)
  have n: "length (sessions (run [CallStart] (init 0 True))) = 1"
    by (simp add: monitor_defs)
  from start_returns_existing_session [OF refl, of "[CallStart]" 0 True] p
  have "start (run [CallStart] (init 0 True)) =
      (0, (run [CallStart] (init 0 True))\<lparr>logs := logs (run [CallStart] (init 0 True)) @ [WarnAlreadyInProgress]\<rparr>)"
    by blast
  with p l tm n show ?thesis by (simp add: active_def)
qed

text \<open>
  C2. The run: \<^verbatim>\<open>start\<close>, the first tick issues \<^verbatim>\<open>eth_syncing\<close>, \<^verbatim>\<open>stop\<close> while the call
  is in flight, then the reply. After \<^verbatim>\<open>stop\<close> the loop is not in progress and the call
  is still in flight; a reply with a sync status then emits \<^verbatim>\<open>nodeSyncing\<close> and sets the
  next tick; the same happens after the skip message has ended the session; a reply with
  code -32601 calls \<^verbatim>\<open>_onSyncDone\<close>, which holds \<^verbatim>\<open>false\<close>, and the \<^verbatim>\<open>.catch\<close> then
  calls \<^verbatim>\<open>_onSyncError\<close>, which holds \<^verbatim>\<open>false\<close> too. The tick that was already
  scheduled, on the other hand, is silent after any \<^verbatim>\<open>stop\<close>: no event, no call, no
  timer.
\<close>

theorem reply_after_stop_emits_progress:
  "events (run [CallStart, Advance 2000, Fire 0, CallStop] (init 0 True)) = [Starting]
   \<and> \<not> syncInProgress (run [CallStart, Advance 2000, Fire 0, CallStop] (init 0 True))
   \<and> rpcs (run [CallStart, Advance 2000, Fire 0, CallStop] (init 0 True)) = [EthSyncing]
   \<and> events (run [CallStart, Advance 2000, Fire 0, CallStop,
                   SyncingReply 0 (Response (SyncStatus 7))] (init 0 True))
       = [Starting, NodeSyncing (SyncStatus 7)]
   \<and> timers (run [CallStart, Advance 2000, Fire 0, CallStop,
                   SyncingReply 0 (Response (SyncStatus 7))] (init 0 True))
       = [(4000, StopDelay 0), (4000, SyncTick)]
   \<and> events (run [CallStart, Advance 2000, Fire 0, SkipSync, RunJob,
                   SyncingReply 0 (Response (SyncStatus 7))] (init 0 True))
       = [Starting, Finished, NodeSyncing (SyncStatus 7)]
   \<and> unhandled (run [CallStart, Advance 2000, Fire 0, CallStop,
                   SyncingReply 0 (Response (ErrorPayload (Some (- 32601))))] (init 0 True))
       = [NotAFunction]
   \<and> events (tick (snd (stop s))) = events (snd (stop s))
   \<and> rpcs (tick (snd (stop s))) = rpcs s
   \<and> timers (tick (snd (stop s))) = timers (snd (stop s))"
proof -
  have a: "events (run [CallStart, Advance 2000, Fire 0, CallStop] (init 0 True)) = [Starting]
   \<and> \<not> syncInProgress (run [CallStart, Advance 2000, Fire 0, CallStop] (init 0 True))
   \<and> rpcs (run [CallStart, Advance 2000, Fire 0, CallStop] (init 0 True)) = [EthSyncing]"
    by (simp add: monitor_defs)
  have b: "events (run [CallStart, Advance 2000, Fire 0, CallStop,
                   SyncingReply 0 (Response (SyncStatus 7))] (init 0 True))
       = [Starting, NodeSyncing (SyncStatus 7)]
   \<and> timers (run [CallStart, Advance 2000, Fire 0, CallStop,
                   SyncingReply 0 (Response (SyncStatus 7))] (init 0 True))
       = [(4000, StopDelay 0), (4000, SyncTick)]"
    by (simp add: monitor_defs)
  have c: "events (run [CallStart, Advance 2000, Fire 0, SkipSync, RunJob,
                   SyncingReply 0 (Response (SyncStatus 7))] (init 0 True))
       = [Starting, Finished, NodeSyncing (SyncStatus 7)]"
    by (simp add: monitor_defs)
  have d: "unhandled (run [CallStart, Advance 2000, Fire 0, CallStop,
                   SyncingReply 0 (Response (ErrorPayload (Some (- 32601))))] (init 0 True))
       = [NotAFunction]"
    by (simp add: monitor_defs)
  have e: "events (tick (snd (stop s))) = events (snd (stop s))
   \<and> rpcs (tick (snd (stop s))) = rpcs s
   \<and> timers (tick (snd (stop s))) = timers (snd (stop s))"
    by (simp add: tick_def stop_def log_def clearState_def Let_def)
  from a b c d e show ?thesis by blast
qed

text \<open>
  C3, as the code has it. \<^verbatim>\<open>start\<close> called without connection and without a session
  promise returns normally: it emits and logs nothing, sets no timer, registers no skip
  listener and leaves \<^verbatim>\<open>_syncInProgress\<close>, \<^verbatim>\<open>_onSyncDone\<close> and \<^verbatim>\<open>_onSyncError\<close> as they
  were. The error is thrown inside the chain: the promise that \<^verbatim>\<open>start\<close> returns is
  pending and is stored in \<^verbatim>\<open>_syncPromise\<close>. In a later turn the reactions log the
  error and clear the state; with no \<^verbatim>\<open>error\<close> listener nothing is emitted and the
  returned promise is rejected with \<open>NotConnected\<close>, with a listener \<^verbatim>\<open>error\<close> is
  emitted and the returned promise is fulfilled.
\<close>

theorem start_not_connected:
  assumes "\<not> connected s" and "syncPromise s = None"
  shows "fst (start s) = length (sessions s)
       \<and> events (snd (start s)) = events s
       \<and> logs (snd (start s)) = logs s
       \<and> timers (snd (start s)) = timers s
       \<and> rpcs (snd (start s)) = rpcs s
       \<and> skipListeners (snd (start s)) = skipListeners s
       \<and> syncInProgress (snd (start s)) = syncInProgress s
       \<and> onSyncDone (snd (start s)) = onSyncDone s
       \<and> onSyncError (snd (start s)) = onSyncError s
       \<and> syncPromise (snd (start s)) = Some (fst (start s))
       \<and> sessions (snd (start s))
           = sessions s @ [\<lparr>inner = Rejected NotConnected, outer = Pending\<rparr>]
       \<and> jobs (snd (start s)) = jobs s @ [SessionSettled (fst (start s))]
       \<and> (jobs s = [] \<longrightarrow>
            logs (run [CallStart, RunJob] s) = logs s @ [ErrorSync NotConnected, InfoLoopEnded]
          \<and> syncPromise (run [CallStart, RunJob] s) = None
          \<and> timers (run [CallStart, RunJob] s) = timers s
          \<and> jobs (run [CallStart, RunJob] s) = [])
       \<and> (jobs s = [] \<and> errorListeners s = 0 \<longrightarrow>
            events (run [CallStart, RunJob] s) = events s
          \<and> sessions (run [CallStart, RunJob] s)
              = sessions s @ [\<lparr>inner = Rejected NotConnected, outer = Rejected NotConnected\<rparr>])
       \<and> (jobs s = [] \<and> 0 < errorListeners s \<longrightarrow>
            events (run [CallStart, RunJob] s) = events s @ [ErrorEvent NotConnected]
          \<and> sessions (run [CallStart, RunJob] s)
              = sessions s @ [\<lparr>inner = Rejected NotConnected, outer = Fulfilled\<rparr>])"
proof -
  have first: "fst (start s) = length (sessions s)
       \<and> events (snd (start s)) = events s
       \<and> logs (snd (start s)) = logs s
       \<and> timers (snd (start s)) = timers s
       \<and> rpcs (snd (start s)) = rpcs s
       \<and> skipListeners (snd (start s)) = skipListeners s
       \<and> syncInProgress (snd (start s)) = syncInProgress s
       \<and> onSyncDone (snd (start s)) = onSyncDone s
       \<and> onSyncError (snd (start s)) = onSyncError s
       \<and> syncPromise (snd (start s)) = Some (fst (start s))
       \<and> sessions (snd (start s))
           = sessions s @ [\<lparr>inner = Rejected NotConnected, outer = Pending\<rparr>]
       \<and> jobs (snd (start s)) = jobs s @ [SessionSettled (fst (start s))]"
    using assms by (simp add: start_not_connected_eq)
  have unheard: "jobs s = [] \<and> errorListeners s = 0 \<longrightarrow>
            events (run [CallStart, RunJob] s) = events s
          \<and> sessions (run [CallStart, RunJob] s)
              = sessions s @ [\<lparr>inner = Rejected NotConnected, outer = Rejected NotConnected\<rparr>]
          \<and> logs (run [CallStart, RunJob] s) = logs s @ [ErrorSync NotConnected, InfoLoopEnded]
          \<and> syncPromise (run [CallStart, RunJob] s) = None
          \<and> timers (run [CallStart, RunJob] s) = timers s
          \<and> jobs (run [CallStart, RunJob] s) = []"
    using assms
    by (simp add: start_not_connected_eq run_def step_def run_job_def settled_unheard)
  have heard: "jobs s = [] \<and> 0 < errorListeners s \<longrightarrow>
            events (run [CallStart, RunJob] s) = events s @ [ErrorEvent NotConnected]
          \<and> sessions (run [CallStart, RunJob] s)
              = sessions s @ [\<lparr>inner = Rejected NotConnected, outer = Fulfilled\<rparr>]
          \<and> logs (run [CallStart, RunJob] s) = logs s @ [ErrorSync NotConnected, InfoLoopEnded]
          \<and> syncPromise (run [CallStart, RunJob] s) = None
          \<and> timers (run [CallStart, RunJob] s) = timers s
          \<and> jobs (run [CallStart, RunJob] s) = []"
    using assms
    by (simp add: start_not_connected_eq run_def step_def run_job_def settled_heard)
  have "errorListeners s = 0 \<or> 0 < errorListeners s" by auto
  with first unheard heard show ?thesis by blast
qed

theorem start_not_connected_witness:
  "fst (start (init 0 False)) = 0
   \<and> events (snd (start (init 0 False))) = []
   \<and> syncPromise (snd (start (init 0 False))) = Some 0
   \<and> events (run [CallStart, RunJob] (init 0 False)) = []
   \<and> sessions (run [CallStart, RunJob] (init 0 False))
       = [\<lparr>inner = Rejected NotConnected, outer = Rejected NotConnected\<rparr>]
   \<and> events (run [CallStart, RunJob] (step (ErrorListeners (Suc 0)) (init 0 False)))
       = [ErrorEvent NotConnected]
   \<and> sessions (run [CallStart, RunJob] (step (ErrorListeners (Suc 0)) (init 0 False)))
       = [\<lparr>inner = Rejected NotConnected, outer = Fulfilled\<rparr>]"
proof -
  let ?h = "step (ErrorListeners (Suc 0)) (init 0 False)"
  have c: "\<not> connected (init 0 False)" and p: "syncPromise (init 0 False) = None"
    and j: "jobs (init 0 False) = []" and e: "events (init 0 False) = []"
    and n: "sessions (init 0 False) = []" and l: "errorListeners (init 0 False) = 0"
    by (simp_all add: init_def)
  have c': "\<not> connected ?h" and p': "syncPromise ?h = None"
    and j': "jobs ?h = []" and e': "events ?h = []"
    and n': "sessions ?h = []" and l': "0 < errorListeners ?h"
    by (simp_all add: init_def step_def)
  from start_not_connected [OF c p] j l start_not_connected [OF c' p'] j' l'
  show ?thesis unfolding e n e' n' by simp
qed

text \<open>
  C3 says that the call fails at once, that no session is created and that the returned
  promise fails. On the constructed object without connection the call returns a pending
  promise and stores it in \<^verbatim>\<open>_syncPromise\<close>, so that a second call finds a session in
  progress; and once a listener for \<^verbatim>\<open>error\<close> is registered the returned promise ends
  fulfilled.
\<close>

theorem start_not_connected_counterexample:
  "outer (sessions (snd (start (init 0 False))) ! fst (start (init 0 False))) = Pending
   \<and> syncPromise (snd (start (init 0 False))) = Some (fst (start (init 0 False)))
   \<and> fst (start (snd (start (init 0 False)))) = fst (start (init 0 False))
   \<and> logs (snd (start (snd (start (init 0 False))))) = [WarnAlreadyInProgress]
   \<and> outer (sessions (run [ErrorListeners (Suc 0), CallStart, RunJob] (init 0 False)) ! 0) = Fulfilled
   \<and> outer (sessions (run [ErrorListeners (Suc 0), CallStart, RunJob] (init 0 False)) ! 0)
       \<noteq> Rejected NotConnected
   \<and> events (run [ErrorListeners (Suc 0), CallStart, RunJob] (init 0 False)) = [ErrorEvent NotConnected]"
  by (simp add: monitor_defs)

text \<open>
  C4. When the \<^verbatim>\<open>eth_syncing\<close> reply has no result, the latest block is queried and
  nothing else happens. On its reply: without a block the next tick is scheduled; with a
  block older than 60 seconds \<^verbatim>\<open>nodeSyncing\<close> is emitted and the next tick is scheduled;
  with a block of age at most 60 seconds the active session is resolved, no
  \<^verbatim>\<open>nodeSyncing\<close> is emitted and no tick is scheduled, and the reaction then emits
  \<^verbatim>\<open>finished\<close>.
\<close>

theorem no_status_checks_latest_block:
  assumes k: "k < length (rpcs s)"
  shows "(rpcs s ! k = EthSyncing \<longrightarrow>
            rpcs (step (SyncingReply k (Response Absent)) s) = remove_nth k (rpcs s) @ [GetBlock Absent]
          \<and> events (step (SyncingReply k (Response Absent)) s) = events s
          \<and> timers (step (SyncingReply k (Response Absent)) s) = timers s
          \<and> sessions (step (SyncingReply k (Response Absent)) s) = sessions s
          \<and> jobs (step (SyncingReply k (Response Absent)) s) = jobs s)
       \<and> (rpcs s ! k = GetBlock Absent \<longrightarrow>
            events (step (BlockReply k (Response NoBlock)) s) = events s
          \<and> timers (step (BlockReply k (Response NoBlock)) s) = timers s @ [(clock s + 2000, SyncTick)]
          \<and> rpcs (step (BlockReply k (Response NoBlock)) s) = remove_nth k (rpcs s)
          \<and> sessions (step (BlockReply k (Response NoBlock)) s) = sessions s
          \<and> jobs (step (BlockReply k (Response NoBlock)) s) = jobs s)
       \<and> (rpcs s ! k = GetBlock Absent \<and> int (clock s div 1000) - ts > 60 \<longrightarrow>
            events (step (BlockReply k (Response (Block ts))) s) = events s @ [NodeSyncing Absent]
          \<and> timers (step (BlockReply k (Response (Block ts))) s) = timers s @ [(clock s + 2000, SyncTick)]
          \<and> rpcs (step (BlockReply k (Response (Block ts))) s) = remove_nth k (rpcs s)
          \<and> sessions (step (BlockReply k (Response (Block ts))) s) = sessions s
          \<and> jobs (step (BlockReply k (Response (Block ts))) s) = jobs s)
       \<and> (rpcs s ! k = GetBlock Absent \<and> int (clock s div 1000) - ts \<le> 60
            \<and> onSyncDone s = Some sid \<and> sid < length (sessions s)
            \<and> inner (sessions s ! sid) = Pending \<longrightarrow>
            events (step (BlockReply k (Response (Block ts))) s) = events s
          \<and> timers (step (BlockReply k (Response (Block ts))) s) = timers s
          \<and> rpcs (step (BlockReply k (Response (Block ts))) s) = remove_nth k (rpcs s)
          \<and> inner (sessions (step (BlockReply k (Response (Block ts))) s) ! sid) = Fulfilled
          \<and> jobs (step (BlockReply k (Response (Block ts))) s) = jobs s @ [SessionSettled sid]
          \<and> (jobs s = [] \<longrightarrow>
               events (step RunJob (step (BlockReply k (Response (Block ts))) s))
                 = events s @ [Finished]))"
  using k by (simp add: reply_defs run_job_def session_settled_def finally_settled_def clearState_def)

theorem no_status_checks_latest_block_witness:
  "events (run [CallStart, Advance 2000, Fire 0, SyncingReply 0 (Response Absent),
                BlockReply 0 (Response (Block 99000))] (init 100000000 True))
     = [Starting, NodeSyncing Absent]
   \<and> timers (run [CallStart, Advance 2000, Fire 0, SyncingReply 0 (Response Absent),
                BlockReply 0 (Response (Block 99000))] (init 100000000 True))
     = [(100004000, SyncTick)]
   \<and> events (run [CallStart, Advance 2000, Fire 0, SyncingReply 0 (Response Absent),
                BlockReply 0 (Response (Block 100000))] (init 100000000 True))
     = [Starting]
   \<and> events (run [CallStart, Advance 2000, Fire 0, SyncingReply 0 (Response Absent),
                BlockReply 0 (Response (Block 100000)), RunJob] (init 100000000 True))
     = [Starting, Finished]"
proof -
  let ?s = "run [CallStart, Advance 2000, Fire 0, SyncingReply 0 (Response Absent)]
              (init 100000000 True)"
  have k: "0 < length (rpcs ?s)" by (simp add: awaiting_block)
  have r: "\<And>i. run [CallStart, Advance 2000, Fire 0, SyncingReply 0 (Response Absent), i]
              (init 100000000 True) = step i ?s"
    by (simp add: run_def)
  have r2: "\<And>i. run [CallStart, Advance 2000, Fire 0, SyncingReply 0 (Response Absent), i, RunJob]
              (init 100000000 True) = step RunJob (step i ?s)"
    by (simp add: run_def)
  from no_status_checks_latest_block [OF k, of 99000 0]
       no_status_checks_latest_block [OF k, of 100000 0]
  show ?thesis
    unfolding r r2 by (simp add: awaiting_block)
qed

text \<open>
  C5. When the \<^verbatim>\<open>eth_syncing\<close> reply carries an error with code -32601, the active
  session is resolved: no timer is set and no call is issued, and the reaction emits
  \<^verbatim>\<open>finished\<close>. A session started on the constructed object whose first poll gets this
  reply emits exactly \<^verbatim>\<open>starting\<close>, \<^verbatim>\<open>finished\<close> and leaves no timer, call or
  reaction behind.
\<close>

theorem method_unsupported_finishes:
  assumes "k < length (rpcs s)"
    and "rpcs s ! k = EthSyncing"
    and "onSyncDone s = Some sid"
    and "sid < length (sessions s)"
    and "inner (sessions s ! sid) = Pending"
    and "i = SyncingReply k (Response (ErrorPayload (Some (- 32601))))"
  shows "events (step i s) = events s
       \<and> timers (step i s) = timers s
       \<and> rpcs (step i s) = remove_nth k (rpcs s)
       \<and> inner (sessions (step i s) ! sid) = Fulfilled
       \<and> jobs (step i s) = jobs s @ [SessionSettled sid]
       \<and> (jobs s = [] \<longrightarrow>
            events (step RunJob (step i s)) = events s @ [Finished]
          \<and> timers (step RunJob (step i s)) = timers s
          \<and> rpcs (step RunJob (step i s)) = remove_nth k (rpcs s)
          \<and> jobs (step RunJob (step i s)) = [])
       \<and> (\<forall>t d. 2000 \<le> d \<longrightarrow>
            events (run [CallStart, Advance d, Fire 0, SyncingReply 0
               (Response (ErrorPayload (Some (- 32601)))), RunJob] (init t True))
              = [Starting, Finished]
          \<and> timers (run [CallStart, Advance d, Fire 0, SyncingReply 0
               (Response (ErrorPayload (Some (- 32601)))), RunJob] (init t True)) = []
          \<and> rpcs (run [CallStart, Advance d, Fire 0, SyncingReply 0
               (Response (ErrorPayload (Some (- 32601)))), RunJob] (init t True)) = []
          \<and> jobs (run [CallStart, Advance d, Fire 0, SyncingReply 0
               (Response (ErrorPayload (Some (- 32601)))), RunJob] (init t True)) = [])"
proof -
  have one: "events (step i s) = events s
       \<and> timers (step i s) = timers s
       \<and> rpcs (step i s) = remove_nth k (rpcs s)
       \<and> inner (sessions (step i s) ! sid) = Fulfilled
       \<and> jobs (step i s) = jobs s @ [SessionSettled sid]"
    using assms by (simp add: reply_defs)
  have two: "jobs s = [] \<longrightarrow>
            events (step RunJob (step i s)) = events s @ [Finished]
          \<and> timers (step RunJob (step i s)) = timers s
          \<and> rpcs (step RunJob (step i s)) = remove_nth k (rpcs s)
          \<and> jobs (step RunJob (step i s)) = []"
    using assms by (simp add: reply_defs run_job_def session_settled_def finally_settled_def clearState_def)
  have three: "\<forall>t d. 2000 \<le> d \<longrightarrow>
            events (run [CallStart, Advance d, Fire 0, SyncingReply 0
               (Response (ErrorPayload (Some (- 32601)))), RunJob] (init t True))
              = [Starting, Finished]
          \<and> timers (run [CallStart, Advance d, Fire 0, SyncingReply 0
               (Response (ErrorPayload (Some (- 32601)))), RunJob] (init t True)) = []
          \<and> rpcs (run [CallStart, Advance d, Fire 0, SyncingReply 0
               (Response (ErrorPayload (Some (- 32601)))), RunJob] (init t True)) = []
          \<and> jobs (run [CallStart, Advance d, Fire 0, SyncingReply 0
               (Response (ErrorPayload (Some (- 32601)))), RunJob] (init t True)) = []"
    by (simp add: monitor_defs)
  from one two three show ?thesis by blast
qed

theorem method_unsupported_finishes_witness:
  "events (run [CallStart, Advance 2000, Fire 0,
       SyncingReply 0 (Response (ErrorPayload (Some (- 32601))))] (init 0 True)) = [Starting]
   \<and> sessions (run [CallStart, Advance 2000, Fire 0,
       SyncingReply 0 (Response (ErrorPayload (Some (- 32601))))] (init 0 True))
       = [\<lparr>inner = Fulfilled, outer = Pending\<rparr>]
   \<and> events (run [CallStart, Advance 2000, Fire 0,
       SyncingReply 0 (Response (ErrorPayload (Some (- 32601)))), RunJob] (init 0 True))
       = [Starting, Finished]
   \<and> timers (run [CallStart, Advance 2000, Fire 0,
       SyncingReply 0 (Response (ErrorPayload (Some (- 32601)))), RunJob] (init 0 True)) = []
   \<and> rpcs (run [CallStart, Advance 2000, Fire 0,
       SyncingReply 0 (Response (ErrorPayload (Some (- 32601)))), RunJob] (init 0 True)) = []"
proof -
  let ?s = "run [CallStart, Advance 2000, Fire 0] (init 0 True)"
  let ?i = "SyncingReply 0 (Response (ErrorPayload (Some (- 32601))))"
  have r: "run [CallStart, Advance 2000, Fire 0, ?i] (init 0 True) = step ?i ?s"
    by (simp add: run_def)
  have k: "0 < length (rpcs ?s)" and e: "rpcs ?s ! 0 = EthSyncing"
    and d: "onSyncDone ?s = Some 0" and l: "0 < length (sessions ?s)"
    and p: "inner (sessions ?s ! 0) = Pending"
    by (simp_all add: polling)
  have n: "length (sessions (step ?i ?s)) = 1"
    by (simp add: polling reply_defs)
  have o: "outer (sessions (step ?i ?s) ! 0) = Pending"
    by (simp add: polling reply_defs)
  have eq: "sessions (step ?i ?s) = [\<lparr>inner = Fulfilled, outer = Pending\<rparr>]"
    if "inner (sessions (step ?i ?s) ! 0) = Fulfilled"
    using that n o by (cases "sessions (step ?i ?s)") simp_all
  from method_unsupported_finishes [OF k e d l p refl]
  show ?thesis
    unfolding r using eq by (simp add: polling)
qed

text \<open>
  C6. In every state the constructed object can reach: \<^verbatim>\<open>stop\<close> without a running loop
  only writes a debug line and returns a fulfilled promise, with no event and nothing
  pending that could emit \<^verbatim>\<open>stopped\<close>; \<^verbatim>\<open>stop\<close> on a running loop emits nothing itself,
  clears the state at once and sets a timer due after \<open>SYNC_CHECK_INTERVAL_MS\<close> (2000,
  the delay of the poll timer), which cannot fire earlier; when it has fired and its
  reaction has run, \<^verbatim>\<open>stopped\<close> has been emitted once and nothing is pending for that
  promise. Over the whole run, the \<^verbatim>\<open>stopped\<close> events together with the pending stop
  timers and reactions number exactly the stops of a running loop.
\<close>

theorem stop_waits_then_emits_stopped_once:
  assumes "s = run is (init t c)"
  shows "(\<not> syncInProgress s \<longrightarrow>
            events (snd (stop s)) = events s
          \<and> timers (snd (stop s)) = timers s
          \<and> jobs (snd (stop s)) = jobs s
          \<and> logs (snd (stop s)) = logs s @ [DebugNotInProgress]
          \<and> settled (stops (snd (stop s)) ! fst (stop s)) = Fulfilled
          \<and> pend (timers (snd (stop s))) (jobs (snd (stop s))) (fst (stop s)) = 0)
       \<and> (syncInProgress s \<longrightarrow>
            events (snd (stop s)) = events s
          \<and> \<not> syncInProgress (snd (stop s))
          \<and> syncPromise (snd (stop s)) = None
          \<and> onSyncDone (snd (stop s)) = None
          \<and> onSyncError (snd (stop s)) = None
          \<and> skipListeners (snd (stop s)) = 0
          \<and> timers (snd (stop s))
              = timers s @ [(clock s + SYNC_CHECK_INTERVAL_MS, StopDelay (fst (stop s)))]
          \<and> jobs (snd (stop s)) = jobs s
          \<and> settled (stops (snd (stop s)) ! fst (stop s)) = Pending
          \<and> (\<forall>d < SYNC_CHECK_INTERVAL_MS.
                run [CallStop, Advance d, Fire (length (timers s))] s = run [CallStop, Advance d] s)
          \<and> (\<forall>d \<ge> SYNC_CHECK_INTERVAL_MS. jobs s = [] \<longrightarrow>
                events (run [CallStop, Advance d, Fire (length (timers s)), RunJob] s)
                  = events s @ [Stopped]
              \<and> pend (timers (run [CallStop, Advance d, Fire (length (timers s)), RunJob] s))
                     (jobs (run [CallStop, Advance d, Fire (length (timers s)), RunJob] s))
                     (fst (stop s)) = 0))
       \<and> length (filter (\<lambda>e. e = Stopped) (events s)) + length (filter stop_timer (timers s))
           + length (filter delayed_job (jobs s))
         = length (filter (\<lambda>l. l = InfoStoppingLoop) (logs s))
       \<and> SYNC_CHECK_INTERVAL_MS = 2000
       \<and> timers (sync s) = timers s @ [(clock s + SYNC_CHECK_INTERVAL_MS, SyncTick)]"
proof -
  have g: "graceful s"
    using assms by (simp add: graceful_reachable)
  have g1: "graceful (snd (stop s))"
    using g by (rule graceful_stop)
  have idle: "\<not> syncInProgress s \<longrightarrow>
            events (snd (stop s)) = events s
          \<and> timers (snd (stop s)) = timers s
          \<and> jobs (snd (stop s)) = jobs s
          \<and> logs (snd (stop s)) = logs s @ [DebugNotInProgress]
          \<and> settled (stops (snd (stop s)) ! fst (stop s)) = Fulfilled
          \<and> pend (timers (snd (stop s))) (jobs (snd (stop s))) (fst (stop s)) = 0"
  proof
    assume n: "\<not> syncInProgress s"
    then have "owed (stops (snd (stop s))) (fst (stop s)) = 0"
      by (simp add: stop_idle owed_def)
    moreover have "pend (timers (snd (stop s))) (jobs (snd (stop s))) (fst (stop s))
        = owed (stops (snd (stop s))) (fst (stop s))"
      using g1 by (simp add: graceful_iff)
    ultimately show "events (snd (stop s)) = events s
          \<and> timers (snd (stop s)) = timers s
          \<and> jobs (snd (stop s)) = jobs s
          \<and> logs (snd (stop s)) = logs s @ [DebugNotInProgress]
          \<and> settled (stops (snd (stop s)) ! fst (stop s)) = Fulfilled
          \<and> pend (timers (snd (stop s))) (jobs (snd (stop s))) (fst (stop s)) = 0"
      using n by (simp add: stop_idle)
  qed
  have later: "pend (timers (run [CallStop, Advance d, Fire (length (timers s)), RunJob] s))
                     (jobs (run [CallStop, Advance d, Fire (length (timers s)), RunJob] s))
                     (fst (stop s)) = 0"
    if a: "syncInProgress s" and j: "jobs s = []" and d: "SYNC_CHECK_INTERVAL_MS \<le> d" for d
  proof -
    let ?s' = "run [CallStop, Advance d, Fire (length (timers s)), RunJob] s"
    have "graceful ?s'"
      using g by (rule graceful_run)
    then have "pend (timers ?s') (jobs ?s') (fst (stop s)) = owed (stops ?s') (fst (stop s))"
      by (simp add: graceful_iff)
    moreover have "owed (stops ?s') (fst (stop s)) = 0"
      using stopped_after_grace(2) [OF a j d] a by (simp add: owed_def stop_active)
    ultimately show ?thesis by simp
  qed
  have active: "syncInProgress s \<longrightarrow>
            events (snd (stop s)) = events s
          \<and> \<not> syncInProgress (snd (stop s))
          \<and> syncPromise (snd (stop s)) = None
          \<and> onSyncDone (snd (stop s)) = None
          \<and> onSyncError (snd (stop s)) = None
          \<and> skipListeners (snd (stop s)) = 0
          \<and> timers (snd (stop s))
              = timers s @ [(clock s + SYNC_CHECK_INTERVAL_MS, StopDelay (fst (stop s)))]
          \<and> jobs (snd (stop s)) = jobs s
          \<and> settled (stops (snd (stop s)) ! fst (stop s)) = Pending
          \<and> (\<forall>d < SYNC_CHECK_INTERVAL_MS.
                run [CallStop, Advance d, Fire (length (timers s))] s = run [CallStop, Advance d] s)
          \<and> (\<forall>d \<ge> SYNC_CHECK_INTERVAL_MS. jobs s = [] \<longrightarrow>
                events (run [CallStop, Advance d, Fire (length (timers s)), RunJob] s)
                  = events s @ [Stopped]
              \<and> pend (timers (run [CallStop, Advance d, Fire (length (timers s)), RunJob] s))
                     (jobs (run [CallStop, Advance d, Fire (length (timers s)), RunJob] s))
                     (fst (stop s)) = 0)"
  proof
    assume a: "syncInProgress s"
    then show "events (snd (stop s)) = events s
          \<and> \<not> syncInProgress (snd (stop s))
          \<and> syncPromise (snd (stop s)) = None
          \<and> onSyncDone (snd (stop s)) = None
          \<and> onSyncError (snd (stop s)) = None
          \<and> skipListeners (snd (stop s)) = 0
          \<and> timers (snd (stop s))
              = timers s @ [(clock s + SYNC_CHECK_INTERVAL_MS, StopDelay (fst (stop s)))]
          \<and> jobs (snd (stop s)) = jobs s
          \<and> settled (stops (snd (stop s)) ! fst (stop s)) = Pending
          \<and> (\<forall>d < SYNC_CHECK_INTERVAL_MS.
                run [CallStop, Advance d, Fire (length (timers s))] s = run [CallStop, Advance d] s)
          \<and> (\<forall>d \<ge> SYNC_CHECK_INTERVAL_MS. jobs s = [] \<longrightarrow>
                events (run [CallStop, Advance d, Fire (length (timers s)), RunJob] s)
                  = events s @ [Stopped]
              \<and> pend (timers (run [CallStop, Advance d, Fire (length (timers s)), RunJob] s))
                     (jobs (run [CallStop, Advance d, Fire (length (timers s)), RunJob] s))
                     (fst (stop s)) = 0)"
      using later [OF a] stopped_after_grace(1) [OF a] not_before_grace [OF a]
      by (simp add: stop_active)
  qed
  have count: "length (filter (\<lambda>e. e = Stopped) (events s)) + length (filter stop_timer (timers s))
           + length (filter delayed_job (jobs s))
         = length (filter (\<lambda>l. l = InfoStoppingLoop) (logs s))"
    using g by (simp add: graceful_iff)
  have const: "SYNC_CHECK_INTERVAL_MS = 2000
       \<and> timers (sync s) = timers s @ [(clock s + SYNC_CHECK_INTERVAL_MS, SyncTick)]"
    by (simp add: SYNC_CHECK_INTERVAL_MS_def sync_def)
  from idle active count const show ?thesis by blast
qed

theorem stop_waits_then_emits_stopped_once_witness:
  "events (snd (stop (run [] (init 0 True)))) = []
   \<and> settled (stops (snd (stop (run [] (init 0 True)))) ! 0) = Fulfilled
   \<and> timers (snd (stop (run [] (init 0 True)))) = []
   \<and> events (snd (stop (run [CallStart] (init 0 True)))) = [Starting]
   \<and> timers (snd (stop (run [CallStart] (init 0 True)))) = [(2000, SyncTick), (2000, StopDelay 0)]
   \<and> run [CallStop, Advance 1999, Fire 1] (run [CallStart] (init 0 True))
       = run [CallStop, Advance 1999] (run [CallStart] (init 0 True))
   \<and> events (run [CallStop, Advance 2000, Fire 1, RunJob] (run [CallStart] (init 0 True)))
       = [Starting, Stopped]"
proof -
  let ?a = "run [CallStart] (init 0 True)"
  let ?i = "run [] (init 0 True)"
  have i: "?i = init 0 True" by (simp add: run_def)
  have idle: "\<not> syncInProgress ?i" by (simp add: run_def init_def)
  have si: "fst (stop ?i) = 0" by (simp add: run_def init_def stop_def Let_def)
  have ei: "events ?i = []" and ti: "timers ?i = []" by (simp_all add: run_def init_def)
  have active: "syncInProgress ?a" and j: "jobs ?a = []" and n: "length (timers ?a) = 1"
    and sa: "fst (stop ?a) = 0" and ea: "events ?a = [Starting]"
    and ta: "timers ?a = [(2000, SyncTick)]" and c: "clock ?a = 0"
    by (simp_all add: started stop_def Let_def)
  have d: "(1999::nat) < SYNC_CHECK_INTERVAL_MS" and d': "SYNC_CHECK_INTERVAL_MS \<le> (2000::nat)"
    by (simp_all add: SYNC_CHECK_INTERVAL_MS_def)
  from stop_waits_then_emits_stopped_once [OF refl, of "[]" 0 True] idle
  have one: "events (snd (stop ?i)) = events ?i \<and> timers (snd (stop ?i)) = timers ?i
      \<and> settled (stops (snd (stop ?i)) ! fst (stop ?i)) = Fulfilled"
    by blast
  from stop_waits_then_emits_stopped_once [OF refl, of "[CallStart]" 0 True] active j d d'
  have two: "events (snd (stop ?a)) = events ?a
      \<and> timers (snd (stop ?a)) = timers ?a @ [(clock ?a + SYNC_CHECK_INTERVAL_MS, StopDelay (fst (stop ?a)))]
      \<and> run [CallStop, Advance 1999, Fire (length (timers ?a))] ?a = run [CallStop, Advance 1999] ?a
      \<and> events (run [CallStop, Advance 2000, Fire (length (timers ?a)), RunJob] ?a)
          = events ?a @ [Stopped]"
    by blast
  from one two show ?thesis
    unfolding si sa n ei ti ea ta c by (simp add: SYNC_CHECK_INTERVAL_MS_def)
qed

text \<open>
  C7, as the code has it. An \<^verbatim>\<open>eth_syncing\<close> error payload whose code is not -32601,
  and a transport failure of either call, reject the inner promise of the active session
  with that error: no timer is set and no call is issued (no retry), the error is
  logged, nothing is emitted yet and the promise that \<^verbatim>\<open>start\<close> returned is untouched.
  The reactions then clear the state, and the failure comes out one way or the other:
  with a listener for \<^verbatim>\<open>error\<close> the event is emitted and the returned promise is
  fulfilled; with none nothing is emitted and the returned promise is rejected with the
  error.
\<close>

theorem rpc_errors_end_session:
  assumes "k < length (rpcs s)"
    and "onSyncError s = Some sid"
    and "sid < length (sessions s)"
    and "inner (sessions s ! sid) = Pending"
    and "(rpcs s ! k = EthSyncing \<and> c \<noteq> Some (- 32601)
            \<and> i = SyncingReply k (Response (ErrorPayload c)) \<and> err = Unexpected c)
       \<or> (rpcs s ! k = EthSyncing \<and> i = SyncingReply k (Failed n) \<and> err = Transport n)
       \<or> (rpcs s ! k = GetBlock r \<and> i = BlockReply k (Failed n) \<and> err = Transport n)"
  shows "timers (step i s) = timers s
       \<and> rpcs (step i s) = remove_nth k (rpcs s)
       \<and> events (step i s) = events s
       \<and> inner (sessions (step i s) ! sid) = Rejected err
       \<and> outer (sessions (step i s) ! sid) = outer (sessions s ! sid)
       \<and> jobs (step i s) = jobs s @ [SessionSettled sid]
       \<and> last (logs (step i s)) = ErrorNodeCrashed err
       \<and> (jobs s = [] \<longrightarrow>
            timers (step RunJob (step i s)) = timers s
          \<and> rpcs (step RunJob (step i s)) = remove_nth k (rpcs s)
          \<and> jobs (step RunJob (step i s)) = []
          \<and> syncInProgress (step RunJob (step i s)) = False
          \<and> syncPromise (step RunJob (step i s)) = None)
       \<and> (jobs s = [] \<and> 0 < errorListeners s \<longrightarrow>
            events (step RunJob (step i s)) = events s @ [ErrorEvent err]
          \<and> outer (sessions (step RunJob (step i s)) ! sid) = Fulfilled)
       \<and> (jobs s = [] \<and> errorListeners s = 0 \<longrightarrow>
            events (step RunJob (step i s)) = events s
          \<and> outer (sessions (step RunJob (step i s)) ! sid) = Rejected err)"
proof -
  have one: "timers (step i s) = timers s
       \<and> rpcs (step i s) = remove_nth k (rpcs s)
       \<and> events (step i s) = events s
       \<and> inner (sessions (step i s) ! sid) = Rejected err
       \<and> outer (sessions (step i s) ! sid) = outer (sessions s ! sid)
       \<and> jobs (step i s) = jobs s @ [SessionSettled sid]
       \<and> last (logs (step i s)) = ErrorNodeCrashed err"
    using assms by (auto simp: reply_defs)
  have len: "sid < length (sessions (step i s))"
    and el: "errorListeners (step i s) = errorListeners s"
    using assms by (auto simp: reply_defs)
  have pop: "step RunJob (step i s) = session_settled sid ((step i s)\<lparr>jobs := []\<rparr>)"
    if "jobs s = []"
    using one that by (simp add: step_def [of RunJob] run_job_def)
  have two: "jobs s = [] \<and> 0 < errorListeners s \<longrightarrow>
            events (step RunJob (step i s)) = events s @ [ErrorEvent err]
          \<and> outer (sessions (step RunJob (step i s)) ! sid) = Fulfilled
          \<and> timers (step RunJob (step i s)) = timers s
          \<and> rpcs (step RunJob (step i s)) = remove_nth k (rpcs s)
          \<and> jobs (step RunJob (step i s)) = []
          \<and> syncInProgress (step RunJob (step i s)) = False
          \<and> syncPromise (step RunJob (step i s)) = None"
    using one len el by (auto simp: pop settled_heard)
  have three: "jobs s = [] \<and> errorListeners s = 0 \<longrightarrow>
            events (step RunJob (step i s)) = events s
          \<and> outer (sessions (step RunJob (step i s)) ! sid) = Rejected err
          \<and> timers (step RunJob (step i s)) = timers s
          \<and> rpcs (step RunJob (step i s)) = remove_nth k (rpcs s)
          \<and> jobs (step RunJob (step i s)) = []
          \<and> syncInProgress (step RunJob (step i s)) = False
          \<and> syncPromise (step RunJob (step i s)) = None"
    using one len el by (auto simp: pop settled_unheard)
  have "errorListeners s = 0 \<or> 0 < errorListeners s" by auto
  with one two three show ?thesis by blast
qed

theorem rpc_errors_end_session_witness:
  "events (run [CallStart, Advance 2000, Fire 0,
       SyncingReply 0 (Response (ErrorPayload (Some 7))), RunJob] (init 0 True)) = [Starting]
   \<and> outer (sessions (run [CallStart, Advance 2000, Fire 0,
       SyncingReply 0 (Response (ErrorPayload (Some 7))), RunJob] (init 0 True)) ! 0)
     = Rejected (Unexpected (Some 7))
   \<and> timers (run [CallStart, Advance 2000, Fire 0,
       SyncingReply 0 (Response (ErrorPayload (Some 7))), RunJob] (init 0 True)) = []
   \<and> rpcs (run [CallStart, Advance 2000, Fire 0,
       SyncingReply 0 (Response (ErrorPayload (Some 7))), RunJob] (init 0 True)) = []
   \<and> events (run [ErrorListeners (Suc 0), CallStart, Advance 2000, Fire 0,
       SyncingReply 0 (Failed 3), RunJob] (init 0 True))
     = [Starting, ErrorEvent (Transport 3)]
   \<and> outer (sessions (run [ErrorListeners (Suc 0), CallStart, Advance 2000, Fire 0,
       SyncingReply 0 (Failed 3), RunJob] (init 0 True)) ! 0) = Fulfilled"
proof -
  let ?s = "run [CallStart, Advance 2000, Fire 0] (init 0 True)"
  let ?h = "run [ErrorListeners (Suc 0), CallStart, Advance 2000, Fire 0] (init 0 True)"
  have r: "\<And>i. run [CallStart, Advance 2000, Fire 0, i, RunJob] (init 0 True)
      = step RunJob (step i ?s)"
    by (simp add: run_def)
  have r': "\<And>i. run [ErrorListeners (Suc 0), CallStart, Advance 2000, Fire 0, i, RunJob] (init 0 True)
      = step RunJob (step i ?h)"
    by (simp add: run_def)
  have k: "0 < length (rpcs ?s)" and d: "onSyncError ?s = Some 0"
    and l: "0 < length (sessions ?s)" and p: "inner (sessions ?s ! 0) = Pending"
    and j: "jobs ?s = []" and u: "errorListeners ?s = 0"
    by (simp_all add: polling)
  have k': "0 < length (rpcs ?h)" and d': "onSyncError ?h = Some 0"
    and l': "0 < length (sessions ?h)" and p': "inner (sessions ?h ! 0) = Pending"
    and j': "jobs ?h = []" and u': "0 < errorListeners ?h"
    by (simp_all add: polling_heard)
  have a: "(rpcs ?s ! 0 = EthSyncing \<and> Some (7::int) \<noteq> Some (- 32601)
            \<and> SyncingReply 0 (Response (ErrorPayload (Some 7)))
                = SyncingReply 0 (Response (ErrorPayload (Some 7)))
            \<and> Unexpected (Some 7) = Unexpected (Some 7))
       \<or> (rpcs ?s ! 0 = EthSyncing
            \<and> SyncingReply 0 (Response (ErrorPayload (Some 7))) = SyncingReply 0 (Failed 0)
            \<and> Unexpected (Some 7) = Transport 0)
       \<or> (rpcs ?s ! 0 = GetBlock Absent
            \<and> SyncingReply 0 (Response (ErrorPayload (Some 7))) = BlockReply 0 (Failed 0)
            \<and> Unexpected (Some 7) = Transport 0)"
    by (simp add: polling)
  have b: "(rpcs ?h ! 0 = EthSyncing \<and> (None::int option) \<noteq> Some (- 32601)
            \<and> SyncingReply 0 (Failed 3) = SyncingReply 0 (Response (ErrorPayload None))
            \<and> Transport 3 = Unexpected None)
       \<or> (rpcs ?h ! 0 = EthSyncing
            \<and> SyncingReply 0 (Failed 3) = SyncingReply 0 (Failed 3)
            \<and> Transport 3 = Transport 3)
       \<or> (rpcs ?h ! 0 = GetBlock Absent
            \<and> SyncingReply 0 (Failed 3) = BlockReply 0 (Failed 3)
            \<and> Transport 3 = Transport 3)"
    by (simp add: polling_heard)
  from rpc_errors_end_session [OF k d l p a] j u
       rpc_errors_end_session [OF k' d' l' p' b] j' u'
  show ?thesis
    unfolding r r' by (simp add: polling polling_heard remove_nth_def)
qed

text \<open>
  C7 says that the failure is surfaced by the \<^verbatim>\<open>error\<close> event and by the promise of
  the session. After a transport failure on the first poll of the constructed object no
  \<^verbatim>\<open>error\<close> event is emitted; and once a listener is registered the event is emitted
  but the promise stored in \<^verbatim>\<open>_syncPromise\<close> ends fulfilled.
\<close>

theorem rpc_errors_end_session_counterexample:
  "events (run [CallStart, Advance 2000, Fire 0, SyncingReply 0 (Failed 3), RunJob]
             (init 0 True)) = [Starting]
   \<and> outer (sessions (run [CallStart, Advance 2000, Fire 0, SyncingReply 0 (Failed 3), RunJob]
             (init 0 True)) ! 0) = Rejected (Transport 3)
   \<and> events (run [ErrorListeners (Suc 0), CallStart, Advance 2000, Fire 0, SyncingReply 0 (Failed 3),
               RunJob] (init 0 True)) = [Starting, ErrorEvent (Transport 3)]
   \<and> outer (sessions (run [ErrorListeners (Suc 0), CallStart, Advance 2000, Fire 0,
               SyncingReply 0 (Failed 3), RunJob] (init 0 True)) ! 0) = Fulfilled
   \<and> syncPromise (run [ErrorListeners (Suc 0), CallStart, Advance 2000, Fire 0,
               SyncingReply 0 (Failed 3)] (init 0 True)) = Some 0"
  by (simp add: monitor_defs)

text \<open>
  C8. In every state the constructed object can reach, the lifecycle handler leaves the
  state unchanged for a state of the node other than Connected and Stopping. On Stopping
  it calls \<^verbatim>\<open>stop\<close> and attaches nothing to the promise: no reaction is queued or waiting.
  On Connected with a running loop it calls \<^verbatim>\<open>stop\<close> and leaves the call of \<^verbatim>\<open>start\<close>
  waiting on the pending promise: no session is created and no reaction is queued; the
  timer of the grace delay is due after \<open>SYNC_CHECK_INTERVAL_MS\<close>, cannot fire earlier,
  and once it has fired the reactions emit \<^verbatim>\<open>stopped\<close> and then run \<^verbatim>\<open>start\<close>. On
  Connected without a running loop the promise is already fulfilled and the call of
  \<^verbatim>\<open>start\<close> is queued for a later turn. Throughout, while the timer of a \<^verbatim>\<open>stop\<close> is
  set its promise is pending and no \<^verbatim>\<open>start\<close> waiting on it is queued, and a queued one
  belongs to a fulfilled promise.
\<close>

theorem reconnect_stops_then_starts:
  assumes "s = run is (init t c)"
  shows "(st \<noteq> NodeConnected \<and> st \<noteq> NodeStopping \<longrightarrow> onNodeStateChanged st s = s)
       \<and> stops (onNodeStateChanged NodeStopping s)
           = stops s @ [\<lparr>settled = (if syncInProgress s then Pending else Fulfilled), then_start = 0\<rparr>]
       \<and> jobs (onNodeStateChanged NodeStopping s) = jobs s
       \<and> sessions (onNodeStateChanged NodeStopping s) = sessions s
       \<and> events (onNodeStateChanged NodeStopping s) = events s
       \<and> \<not> syncInProgress (onNodeStateChanged NodeStopping s)
       \<and> timers (onNodeStateChanged NodeStopping s)
           = (if syncInProgress s
              then timers s @ [(clock s + SYNC_CHECK_INTERVAL_MS, StopDelay (length (stops s)))]
              else timers s)
       \<and> (syncInProgress s \<longrightarrow>
            sessions (onNodeStateChanged NodeConnected s) = sessions s
          \<and> jobs (onNodeStateChanged NodeConnected s) = jobs s
          \<and> events (onNodeStateChanged NodeConnected s) = events s
          \<and> syncPromise (onNodeStateChanged NodeConnected s) = None
          \<and> \<not> syncInProgress (onNodeStateChanged NodeConnected s)
          \<and> stops (onNodeStateChanged NodeConnected s)
              = stops s @ [\<lparr>settled = Pending, then_start = 1\<rparr>]
          \<and> timers (onNodeStateChanged NodeConnected s)
              = timers s @ [(clock s + SYNC_CHECK_INTERVAL_MS, StopDelay (length (stops s)))]
          \<and> (\<forall>d < SYNC_CHECK_INTERVAL_MS. jobs s = [] \<longrightarrow>
                run [NodeState NodeConnected, Advance d, Fire (length (timers s)), RunJob, RunJob] s
                  = run [NodeState NodeConnected, Advance d] s)
          \<and> (\<forall>d \<ge> SYNC_CHECK_INTERVAL_MS. jobs s = [] \<and> connected s \<longrightarrow>
                events (run [NodeState NodeConnected, Advance d, Fire (length (timers s)),
                             RunJob, RunJob] s) = events s @ [Stopped, Starting]
              \<and> sessions (run [NodeState NodeConnected, Advance d, Fire (length (timers s)),
                             RunJob, RunJob] s) = sessions s @ [\<lparr>inner = Pending, outer = Pending\<rparr>]))
       \<and> (\<not> syncInProgress s \<longrightarrow>
            sessions (onNodeStateChanged NodeConnected s) = sessions s
          \<and> events (onNodeStateChanged NodeConnected s) = events s
          \<and> timers (onNodeStateChanged NodeConnected s) = timers s
          \<and> syncPromise (onNodeStateChanged NodeConnected s) = syncPromise s
          \<and> stops (onNodeStateChanged NodeConnected s)
              = stops s @ [\<lparr>settled = Fulfilled, then_start = 0\<rparr>]
          \<and> jobs (onNodeStateChanged NodeConnected s) = jobs s @ [ThenStart (length (stops s))])
       \<and> (\<forall>d p. (d, StopDelay p) \<in> set (timers s) \<longrightarrow>
            p < length (stops s) \<and> settled (stops s ! p) = Pending \<and> ThenStart p \<notin> set (jobs s))
       \<and> (\<forall>p. ThenStart p \<in> set (jobs s) \<longrightarrow>
            p < length (stops s) \<and> settled (stops s ! p) = Fulfilled)
       \<and> (\<forall>k. k < length (timers s) \<and> clock s < fst (timers s ! k) \<longrightarrow> fire k s = s)"
proof -
  have g: "graceful s"
    using assms by (simp add: graceful_reachable)
  have other: "st \<noteq> NodeConnected \<and> st \<noteq> NodeStopping \<longrightarrow> onNodeStateChanged st s = s"
    by (cases st) (simp_all add: onNodeStateChanged_def)
  have stopping: "stops (onNodeStateChanged NodeStopping s)
           = stops s @ [\<lparr>settled = (if syncInProgress s then Pending else Fulfilled), then_start = 0\<rparr>]
       \<and> jobs (onNodeStateChanged NodeStopping s) = jobs s
       \<and> sessions (onNodeStateChanged NodeStopping s) = sessions s
       \<and> events (onNodeStateChanged NodeStopping s) = events s
       \<and> \<not> syncInProgress (onNodeStateChanged NodeStopping s)
       \<and> timers (onNodeStateChanged NodeStopping s)
           = (if syncInProgress s
              then timers s @ [(clock s + SYNC_CHECK_INTERVAL_MS, StopDelay (length (stops s)))]
              else timers s)"
    by (cases "syncInProgress s") (simp_all add: stopping_active stopping_idle)
  have active: "syncInProgress s \<longrightarrow>
            sessions (onNodeStateChanged NodeConnected s) = sessions s
          \<and> jobs (onNodeStateChanged NodeConnected s) = jobs s
          \<and> events (onNodeStateChanged NodeConnected s) = events s
          \<and> syncPromise (onNodeStateChanged NodeConnected s) = None
          \<and> \<not> syncInProgress (onNodeStateChanged NodeConnected s)
          \<and> stops (onNodeStateChanged NodeConnected s)
              = stops s @ [\<lparr>settled = Pending, then_start = 1\<rparr>]
          \<and> timers (onNodeStateChanged NodeConnected s)
              = timers s @ [(clock s + SYNC_CHECK_INTERVAL_MS, StopDelay (length (stops s)))]
          \<and> (\<forall>d < SYNC_CHECK_INTERVAL_MS. jobs s = [] \<longrightarrow>
                run [NodeState NodeConnected, Advance d, Fire (length (timers s)), RunJob, RunJob] s
                  = run [NodeState NodeConnected, Advance d] s)
          \<and> (\<forall>d \<ge> SYNC_CHECK_INTERVAL_MS. jobs s = [] \<and> connected s \<longrightarrow>
                events (run [NodeState NodeConnected, Advance d, Fire (length (timers s)),
                             RunJob, RunJob] s) = events s @ [Stopped, Starting]
              \<and> sessions (run [NodeState NodeConnected, Advance d, Fire (length (timers s)),
                             RunJob, RunJob] s) = sessions s @ [\<lparr>inner = Pending, outer = Pending\<rparr>])"
    using restart_after_grace [of s] no_restart_before_grace [of s]
    by (simp add: connected_active)
  have idle: "\<not> syncInProgress s \<longrightarrow>
            sessions (onNodeStateChanged NodeConnected s) = sessions s
          \<and> events (onNodeStateChanged NodeConnected s) = events s
          \<and> timers (onNodeStateChanged NodeConnected s) = timers s
          \<and> syncPromise (onNodeStateChanged NodeConnected s) = syncPromise s
          \<and> stops (onNodeStateChanged NodeConnected s)
              = stops s @ [\<lparr>settled = Fulfilled, then_start = 0\<rparr>]
          \<and> jobs (onNodeStateChanged NodeConnected s) = jobs s @ [ThenStart (length (stops s))]"
    by (simp add: connected_idle)
  have timer: "\<forall>d p. (d, StopDelay p) \<in> set (timers s) \<longrightarrow>
            p < length (stops s) \<and> settled (stops s ! p) = Pending \<and> ThenStart p \<notin> set (jobs s)"
    using g by (blast dest: pending_while_timer)
  have queued: "\<forall>p. ThenStart p \<in> set (jobs s) \<longrightarrow>
            p < length (stops s) \<and> settled (stops s ! p) = Fulfilled"
    using g by (simp add: graceful_iff)
  have due: "\<forall>k. k < length (timers s) \<and> clock s < fst (timers s ! k) \<longrightarrow> fire k s = s"
    by (simp add: fire_not_due)
  from other stopping active idle timer queued due show ?thesis by blast
qed

theorem reconnect_stops_then_starts_witness:
  "onNodeStateChanged NodeStopped (run [CallStart] (init 0 True)) = run [CallStart] (init 0 True)
   \<and> stops (onNodeStateChanged NodeStopping (run [CallStart] (init 0 True)))
       = [\<lparr>settled = Pending, then_start = 0\<rparr>]
   \<and> stops (onNodeStateChanged NodeConnected (run [CallStart] (init 0 True)))
       = [\<lparr>settled = Pending, then_start = 1\<rparr>]
   \<and> sessions (onNodeStateChanged NodeConnected (run [CallStart] (init 0 True)))
       = [\<lparr>inner = Pending, outer = Pending\<rparr>]
   \<and> run [NodeState NodeConnected, Advance 1999, Fire 1, RunJob, RunJob] (run [CallStart] (init 0 True))
       = run [NodeState NodeConnected, Advance 1999] (run [CallStart] (init 0 True))
   \<and> events (run [NodeState NodeConnected, Advance 2000, Fire 1, RunJob, RunJob]
               (run [CallStart] (init 0 True))) = [Starting, Stopped, Starting]
   \<and> jobs (onNodeStateChanged NodeConnected (run [] (init 0 True))) = [ThenStart 0]"
proof -
  let ?a = "run [CallStart] (init 0 True)"
  let ?i = "run [] (init 0 True)"
  have idle: "\<not> syncInProgress ?i" and ji: "jobs ?i = []" and si: "stops ?i = []"
    by (simp_all add: run_def init_def)
  have active: "syncInProgress ?a" and j: "jobs ?a = []" and n: "length (timers ?a) = 1"
    and c: "connected ?a" and ea: "events ?a = [Starting]" and sa: "stops ?a = []"
    and se: "sessions ?a = [\<lparr>inner = Pending, outer = Pending\<rparr>]"
    by (simp_all add: started)
  have d: "(1999::nat) < SYNC_CHECK_INTERVAL_MS" and d': "SYNC_CHECK_INTERVAL_MS \<le> (2000::nat)"
    by (simp_all add: SYNC_CHECK_INTERVAL_MS_def)
  have o: "NodeStopped \<noteq> NodeConnected \<and> NodeStopped \<noteq> NodeStopping" by simp
  from reconnect_stops_then_starts [OF refl, of NodeStopped "[]" 0 True] idle
  have one: "jobs (onNodeStateChanged NodeConnected ?i) = jobs ?i @ [ThenStart (length (stops ?i))]"
    by blast
  from reconnect_stops_then_starts [OF refl, of NodeStopped "[CallStart]" 0 True] active j c d d' o
  have two: "onNodeStateChanged NodeStopped ?a = ?a
      \<and> stops (onNodeStateChanged NodeStopping ?a)
           = stops ?a @ [\<lparr>settled = (if syncInProgress ?a then Pending else Fulfilled), then_start = 0\<rparr>]
      \<and> stops (onNodeStateChanged NodeConnected ?a) = stops ?a @ [\<lparr>settled = Pending, then_start = 1\<rparr>]
      \<and> sessions (onNodeStateChanged NodeConnected ?a) = sessions ?a
      \<and> run [NodeState NodeConnected, Advance 1999, Fire (length (timers ?a)), RunJob, RunJob] ?a
           = run [NodeState NodeConnected, Advance 1999] ?a
      \<and> events (run [NodeState NodeConnected, Advance 2000, Fire (length (timers ?a)),
                             RunJob, RunJob] ?a) = events ?a @ [Stopped, Starting]"
    by blast
  from one two active show ?thesis
    unfolding n ji si ea sa se by simp
qed

text \<open>
  C9. Whatever inputs the constructed object received, a latest-block call in flight
  holds a falsy \<^verbatim>\<open>result\<close>, and the reply with a block older than 60 seconds emits
  \<^verbatim>\<open>nodeSyncing\<close> with that \<^verbatim>\<open>result\<close>: the payload does not depend on the block.
\<close>

theorem stale_block_progress_payload:
  assumes "s = run is (init t c)"
    and "k < length (rpcs s)"
    and "rpcs s ! k = GetBlock result"
    and "int (clock s div 1000) - ts > 60"
  shows "result = Absent
       \<and> events (step (BlockReply k (Response (Block ts))) s) = events s @ [NodeSyncing result]"
proof -
  have "block_calls_absent s"
    using assms(1) by (simp add: block_calls_absent_run block_calls_absent_init)
  moreover have "rpcs s ! k \<in> set (rpcs s)"
    using assms(2) by simp
  ultimately have "result = Absent"
    using assms(3) by (auto simp: block_calls_absent_def)
  moreover have "events (step (BlockReply k (Response (Block ts))) s)
      = events s @ [NodeSyncing result]"
    using assms(2-4) by (simp add: reply_defs)
  ultimately show ?thesis by simp
qed

theorem stale_block_progress_payload_witness:
  "events (run [CallStart, Advance 2000, Fire 0, SyncingReply 0 (Response Absent),
                BlockReply 0 (Response (Block 5))] (init 100000000 True))
     = [Starting, NodeSyncing Absent]
   \<and> events (run [CallStart, Advance 2000, Fire 0, SyncingReply 0 (Response Absent),
                BlockReply 0 (Response (Block 99000))] (init 100000000 True))
     = [Starting, NodeSyncing Absent]"
proof -
  let ?is = "[CallStart, Advance 2000, Fire 0, SyncingReply 0 (Response Absent)]"
  let ?s = "run ?is (init 100000000 True)"
  have r: "\<And>i. run [CallStart, Advance 2000, Fire 0, SyncingReply 0 (Response Absent), i]
              (init 100000000 True) = step i ?s"
    by (simp add: run_def)
  have k: "0 < length (rpcs ?s)" and g: "rpcs ?s ! 0 = GetBlock Absent"
    by (simp_all add: awaiting_block)
  have a: "int (clock ?s div 1000) - 5 > 60" and b: "int (clock ?s div 1000) - 99000 > 60"
    by (simp_all add: awaiting_block)
  from stale_block_progress_payload [OF refl k g a]
       stale_block_progress_payload [OF refl k g b]
  show ?thesis
    unfolding r by (simp add: awaiting_block)
qed

text \<open>
  C10, as the code has it. In every state the constructed object can reach, the promise
  returned by \<^verbatim>\<open>start\<close> is settled only after the inner promise of its session, is
  rejected only with the error of the inner one, and once the inner one is settled the
  reactions are queued or have run. While a listener for \<^verbatim>\<open>error\<close> stays registered
  from the beginning, no returned promise is ever rejected. The reactions of a resolved
  session emit \<^verbatim>\<open>finished\<close>, clear the state and fulfil the returned promise; those of
  a rejected one log the error and clear the state, and with a listener they emit
  \<^verbatim>\<open>error\<close> and fulfil the returned promise, with none they emit nothing and reject it
  with the error. Resolving an active session leads to \<^verbatim>\<open>finished\<close> and fulfilment;
  the \<^verbatim>\<open>.catch\<close> of the poll loop rejects the active session, and when no session is
  active it emits nothing and settles nothing; \<^verbatim>\<open>start\<close> without connection creates its
  session already rejected. A session that \<^verbatim>\<open>stop\<close> cleared while it was pending stays
  pending whatever happens afterwards.
\<close>

theorem start_promise_follows_session:
  "(\<forall>is t c q. q < length (sessions (run is (init t c))) \<longrightarrow>
       (outer (sessions (run is (init t c)) ! q) = Fulfilled \<longrightarrow>
          inner (sessions (run is (init t c)) ! q) \<noteq> Pending)
     \<and> (\<forall>e. outer (sessions (run is (init t c)) ! q) = Rejected e \<longrightarrow>
          inner (sessions (run is (init t c)) ! q) = Rejected e)
     \<and> (inner (sessions (run is (init t c)) ! q) \<noteq> Pending \<longrightarrow>
          SessionSettled q \<in> set (jobs (run is (init t c)))
        \<or> outer (sessions (run is (init t c)) ! q) \<noteq> Pending))
   \<and> (\<forall>is t c n q e. list_all keeps_listener is
          \<and> q < length (sessions (run (ErrorListeners (Suc n) # is) (init t c))) \<longrightarrow>
        outer (sessions (run (ErrorListeners (Suc n) # is) (init t c)) ! q) \<noteq> Rejected e)
   \<and> (sid < length (sessions s) \<and> inner (sessions s ! sid) = Fulfilled \<longrightarrow>
        events (run_job (SessionSettled sid) s) = events s @ [Finished]
      \<and> syncPromise (run_job (SessionSettled sid) s) = None
      \<and> \<not> syncInProgress (run_job (SessionSettled sid) s)
      \<and> outer (sessions (run_job (SessionSettled sid) s) ! sid) = Fulfilled)
   \<and> (sid < length (sessions s) \<and> inner (sessions s ! sid) = Rejected err \<longrightarrow>
        logs (run_job (SessionSettled sid) s) = logs s @ [ErrorSync err, InfoLoopEnded]
      \<and> syncPromise (run_job (SessionSettled sid) s) = None
      \<and> \<not> syncInProgress (run_job (SessionSettled sid) s)
      \<and> onSyncDone (run_job (SessionSettled sid) s) = None
      \<and> onSyncError (run_job (SessionSettled sid) s) = None
      \<and> skipListeners (run_job (SessionSettled sid) s) = 0
      \<and> events (run_job (SessionSettled sid) s)
          = (if errorListeners s = 0 then events s else events s @ [ErrorEvent err])
      \<and> outer (sessions (run_job (SessionSettled sid) s) ! sid)
          = (if errorListeners s = 0 then Rejected err else Fulfilled))
   \<and> (onSyncDone s = Some sid \<and> sid < length (sessions s)
        \<and> inner (sessions s ! sid) = Pending \<and> jobs s = [] \<longrightarrow>
        events (step RunJob (fst (call_onSyncDone s))) = events s @ [Finished]
      \<and> outer (sessions (step RunJob (fst (call_onSyncDone s))) ! sid) = Fulfilled)
   \<and> (onSyncError s = Some sid \<and> sid < length (sessions s)
        \<and> inner (sessions s ! sid) = Pending \<longrightarrow>
        inner (sessions (on_rpc_error err s) ! sid) = Rejected err
      \<and> SessionSettled sid \<in> set (jobs (on_rpc_error err s)))
   \<and> (onSyncError s = None \<longrightarrow>
        events (on_rpc_error err s) = events s
      \<and> sessions (on_rpc_error err s) = sessions s
      \<and> jobs (on_rpc_error err s) = jobs s
      \<and> unhandled (on_rpc_error err s) = unhandled s @ [NotAFunction])
   \<and> (syncPromise s = None \<and> \<not> connected s \<longrightarrow>
        inner (sessions (snd (start s)) ! fst (start s)) = Rejected NotConnected
      \<and> outer (sessions (snd (start s)) ! fst (start s)) = Pending
      \<and> SessionSettled (fst (start s)) \<in> set (jobs (snd (start s))))
   \<and> (syncInProgress s \<and> sid < length (sessions s)
        \<and> inner (sessions s ! sid) = Pending \<and> outer (sessions s ! sid) = Pending
        \<and> SessionSettled sid \<notin> set (jobs s) \<longrightarrow>
        (\<forall>is. inner (sessions (run is (snd (stop s))) ! sid) = Pending
            \<and> outer (sessions (run is (snd (stop s))) ! sid) = Pending))"
proof -
  have follows: "\<forall>is t c q. q < length (sessions (run is (init t c))) \<longrightarrow>
       (outer (sessions (run is (init t c)) ! q) = Fulfilled \<longrightarrow>
          inner (sessions (run is (init t c)) ! q) \<noteq> Pending)
     \<and> (\<forall>e. outer (sessions (run is (init t c)) ! q) = Rejected e \<longrightarrow>
          inner (sessions (run is (init t c)) ! q) = Rejected e)
     \<and> (inner (sessions (run is (init t c)) ! q) \<noteq> Pending \<longrightarrow>
          SessionSettled q \<in> set (jobs (run is (init t c)))
        \<or> outer (sessions (run is (init t c)) ! q) \<noteq> Pending)"
    using promises_kept_reachable by (simp add: promises_kept_def)
  have listened: "\<forall>is t c n q e. list_all keeps_listener is
          \<and> q < length (sessions (run (ErrorListeners (Suc n) # is) (init t c))) \<longrightarrow>
        outer (sessions (run (ErrorListeners (Suc n) # is) (init t c)) ! q) \<noteq> Rejected e"
  proof (intro allI impI)
    fix "is" t c n q e
    assume a: "list_all keeps_listener is
          \<and> q < length (sessions (run (ErrorListeners (Suc n) # is) (init t c)))"
    have "heard (step (ErrorListeners (Suc n)) (init t c))"
      by (rule heard_first) simp
    with a have "heard (run is (step (ErrorListeners (Suc n)) (init t c)))"
      by (simp add: heard_run)
    then have "heard (run (ErrorListeners (Suc n) # is) (init t c))"
      by (simp add: run_def)
    with a show "outer (sessions (run (ErrorListeners (Suc n) # is) (init t c)) ! q) \<noteq> Rejected e"
      by (simp add: heard_def)
  qed
  have ful: "sid < length (sessions s) \<and> inner (sessions s ! sid) = Fulfilled \<longrightarrow>
        events (run_job (SessionSettled sid) s) = events s @ [Finished]
      \<and> syncPromise (run_job (SessionSettled sid) s) = None
      \<and> \<not> syncInProgress (run_job (SessionSettled sid) s)
      \<and> outer (sessions (run_job (SessionSettled sid) s) ! sid) = Fulfilled"
    by (simp add: run_job_def settled_fulfilled)
  have rej: "sid < length (sessions s) \<and> inner (sessions s ! sid) = Rejected err \<longrightarrow>
        logs (run_job (SessionSettled sid) s) = logs s @ [ErrorSync err, InfoLoopEnded]
      \<and> syncPromise (run_job (SessionSettled sid) s) = None
      \<and> \<not> syncInProgress (run_job (SessionSettled sid) s)
      \<and> onSyncDone (run_job (SessionSettled sid) s) = None
      \<and> onSyncError (run_job (SessionSettled sid) s) = None
      \<and> skipListeners (run_job (SessionSettled sid) s) = 0
      \<and> events (run_job (SessionSettled sid) s)
          = (if errorListeners s = 0 then events s else events s @ [ErrorEvent err])
      \<and> outer (sessions (run_job (SessionSettled sid) s) ! sid)
          = (if errorListeners s = 0 then Rejected err else Fulfilled)"
    by (cases "errorListeners s = 0") (simp_all add: run_job_def settled_heard settled_unheard)
  have res: "onSyncDone s = Some sid \<and> sid < length (sessions s)
        \<and> inner (sessions s ! sid) = Pending \<and> jobs s = [] \<longrightarrow>
        events (step RunJob (fst (call_onSyncDone s))) = events s @ [Finished]
      \<and> outer (sessions (step RunJob (fst (call_onSyncDone s))) ! sid) = Fulfilled"
    by (simp add: resolved_then_fulfilled)
  have poll: "onSyncError s = Some sid \<and> sid < length (sessions s)
        \<and> inner (sessions s ! sid) = Pending \<longrightarrow>
        inner (sessions (on_rpc_error err s) ! sid) = Rejected err
      \<and> SessionSettled sid \<in> set (jobs (on_rpc_error err s))"
    by (simp add: rejected_then_queued)
  have lost: "onSyncError s = None \<longrightarrow>
        events (on_rpc_error err s) = events s
      \<and> sessions (on_rpc_error err s) = sessions s
      \<and> jobs (on_rpc_error err s) = jobs s
      \<and> unhandled (on_rpc_error err s) = unhandled s @ [NotAFunction]"
    by (simp add: error_without_session)
  have nc: "syncPromise s = None \<and> \<not> connected s \<longrightarrow>
        inner (sessions (snd (start s)) ! fst (start s)) = Rejected NotConnected
      \<and> outer (sessions (snd (start s)) ! fst (start s)) = Pending
      \<and> SessionSettled (fst (start s)) \<in> set (jobs (snd (start s)))"
    by (simp add: start_not_connected_eq)
  have orphan: "syncInProgress s \<and> sid < length (sessions s)
        \<and> inner (sessions s ! sid) = Pending \<and> outer (sessions s ! sid) = Pending
        \<and> SessionSettled sid \<notin> set (jobs s) \<longrightarrow>
        (\<forall>is. inner (sessions (run is (snd (stop s))) ! sid) = Pending
            \<and> outer (sessions (run is (snd (stop s))) ! sid) = Pending)"
  proof (intro impI allI)
    fix "is"
    assume "syncInProgress s \<and> sid < length (sessions s)
        \<and> inner (sessions s ! sid) = Pending \<and> outer (sessions s ! sid) = Pending
        \<and> SessionSettled sid \<notin> set (jobs s)"
    then have "orphaned (snd (stop s)) sid" by (simp add: stop_orphans)
    then have "orphaned (run is (snd (stop s))) sid" by (rule orphaned_run)
    then show "inner (sessions (run is (snd (stop s))) ! sid) = Pending
            \<and> outer (sessions (run is (snd (stop s))) ! sid) = Pending"
      by (simp add: orphaned_def)
  qed
  from follows listened ful rej res poll lost nc orphan show ?thesis by blast
qed

theorem start_promise_follows_session_witness:
  "outer (sessions (run (ErrorListeners (Suc 0) # [CallStart, RunJob]) (init 0 False)) ! 0)
     \<noteq> Rejected NotConnected
   \<and> outer (sessions (run_job (SessionSettled 0) (run [CallStart] (init 0 False))) ! 0)
       = Rejected NotConnected
   \<and> events (run_job (SessionSettled 0) (run [CallStart] (init 0 False))) = []
   \<and> outer (sessions (step RunJob (fst (call_onSyncDone (run [CallStart] (init 0 True)))))
        ! 0) = Fulfilled
   \<and> outer (sessions (run [Advance 2000, Fire 0, Fire 0, RunJob]
              (snd (stop (run [CallStart] (init 0 True))))) ! 0) = Pending"
proof -
  let ?r = "run [CallStart] (init 0 False)"
  let ?a = "run [CallStart] (init 0 True)"
  have k: "list_all keeps_listener [CallStart, RunJob]" by simp
  have n: "0 < length (sessions (run (ErrorListeners (Suc 0) # [CallStart, RunJob]) (init 0 False)))"
    by (simp add: monitor_defs)
  have r: "0 < length (sessions ?r)" "inner (sessions ?r ! 0) = Rejected NotConnected"
    "errorListeners ?r = 0" "events ?r = []"
    by (simp_all add: refused)
  have a: "syncInProgress ?a" "0 < length (sessions ?a)" "inner (sessions ?a ! 0) = Pending"
    "outer (sessions ?a ! 0) = Pending" "SessionSettled 0 \<notin> set (jobs ?a)"
    "onSyncDone ?a = Some 0" "jobs ?a = []"
    by (simp_all add: started)
  from start_promise_follows_session [where s = ?r and sid = 0 and err = NotConnected] k n r
  have one: "outer (sessions (run (ErrorListeners (Suc 0) # [CallStart, RunJob]) (init 0 False)) ! 0)
       \<noteq> Rejected NotConnected
     \<and> outer (sessions (run_job (SessionSettled 0) ?r) ! 0) = Rejected NotConnected
     \<and> events (run_job (SessionSettled 0) ?r) = []"
    by simp
  from start_promise_follows_session [where s = ?a and sid = 0 and err = NotConnected] a
  have two: "outer (sessions (step RunJob (fst (call_onSyncDone ?a))) ! 0) = Fulfilled
     \<and> outer (sessions (run [Advance 2000, Fire 0, Fire 0, RunJob] (snd (stop ?a))) ! 0) = Pending"
    by simp
  from one two show ?thesis by simp
qed

text \<open>
  C10 says that in every execution the returned promise is fulfilled and never rejected.
  After \<^verbatim>\<open>start\<close> and \<^verbatim>\<open>stop\<close> on the constructed object, when every timer has fired
  and every reaction has run, the returned promise is still pending and nothing is left
  that could settle it; and after \<^verbatim>\<open>start\<close> without connection, with no listener for
  \<^verbatim>\<open>error\<close>, it is rejected.
\<close>

theorem start_promise_follows_session_counterexample:
  "outer (sessions (run [CallStart, CallStop, Advance 2000, Fire 0, Fire 0, RunJob]
             (init 0 True)) ! 0) = Pending
   \<and> events (run [CallStart, CallStop, Advance 2000, Fire 0, Fire 0, RunJob] (init 0 True))
       = [Starting, Stopped]
   \<and> timers (run [CallStart, CallStop, Advance 2000, Fire 0, Fire 0, RunJob] (init 0 True)) = []
   \<and> rpcs (run [CallStart, CallStop, Advance 2000, Fire 0, Fire 0, RunJob] (init 0 True)) = []
   \<and> jobs (run [CallStart, CallStop, Advance 2000, Fire 0, Fire 0, RunJob] (init 0 True)) = []
   \<and> onSyncDone (run [CallStart, CallStop, Advance 2000, Fire 0, Fire 0, RunJob] (init 0 True))
       = None
   \<and> skipListeners (run [CallStart, CallStop, Advance 2000, Fire 0, Fire 0, RunJob]
       (init 0 True)) = 0
   \<and> outer (sessions (run [CallStart, RunJob] (init 0 False)) ! 0) = Rejected NotConnected
   \<and> events (run [CallStart, RunJob] (init 0 False)) = []"
  by (simp add: monitor_defs)

end
